theory Spec2Isabelle
  imports Complex_Main "HOL-Library.Word" "HOL-Library.Sublist" "HOL-Library.List_Lexorder" "HOL-Library.Char_ord"
begin

unbundle bit_operations_syntax

section \<open>Timestamps and the date-sharded cluster table\<close>

text \<open>
  Python's naive \<^verbatim>\<open>datetime\<close> holds year, month, day, hour, minute, second and
  microsecond; two naive datetimes compare as the tuples of these seven fields,
  lexicographically. \<^verbatim>\<open>datetime(2024, 4, 27)\<close> is midnight of that day.
\<close>

record datetime =
  year :: nat
  month :: nat
  day :: nat
  hour :: nat
  minute :: nat
  second :: nat
  microsecond :: nat

definition mk_datetime :: "nat \<Rightarrow> nat \<Rightarrow> nat \<Rightarrow> nat \<Rightarrow> nat \<Rightarrow> nat \<Rightarrow> nat \<Rightarrow> datetime" where
  "mk_datetime y mo d h mi s us =
     \<lparr>year = y, month = mo, day = d, hour = h, minute = mi, second = s, microsecond = us\<rparr>"

definition dt_tuple :: "datetime \<Rightarrow> nat list" where
  "dt_tuple t = [year t, month t, day t, hour t, minute t, second t, microsecond t]"

fun tuple_le :: "nat list \<Rightarrow> nat list \<Rightarrow> bool" where
  "tuple_le [] ys = True"
| "tuple_le (x # xs) [] = False"
| "tuple_le (x # xs) (y # ys) = (x < y \<or> (x = y \<and> tuple_le xs ys))"

definition datetime_le :: "datetime \<Rightarrow> datetime \<Rightarrow> bool" where
  "datetime_le a b = tuple_le (dt_tuple a) (dt_tuple b)"

text \<open>
  What \<^verbatim>\<open>datetime.strptime\<close> with a format that has no \<^verbatim>\<open>%f\<close> can return: every
  field in range and no microseconds.
\<close>

definition second_resolution :: "datetime \<Rightarrow> bool" where
  "second_resolution t =
     (hour t < 24 \<and> minute t < 60 \<and> second t < 60 \<and> microsecond t = 0)"

text \<open>
  The connection strings come from the environment; a URI is known by the name of
  its variable. \<^verbatim>\<open>MongoClient(uri)\<close> is the client of that cluster.
\<close>

datatype env_uri = MONGO_ATLAS_URI_1 | MONGO_ATLAS_URI_2 | MONGO_ATLAS_URI_3

datatype mongo_client = MongoClient env_uri

record cluster =
  uri :: env_uri
  start_date :: datetime
  end_date :: datetime

text \<open>
  \<^verbatim>\<open>CLUSTERS\<close> of \<^verbatim>\<open>mongo.ipynb\<close> and of \<^verbatim>\<open>db.ipynb\<close> (the same table in both): a dict,
  kept as its items in insertion order, which is the order \<^verbatim>\<open>.items()\<close> and
  \<^verbatim>\<open>.values()\<close> iterate in. The window bounds are the table's strings
  \<^verbatim>\<open>"2024-01-01T00:00:00Z"\<close> ... read with \<^verbatim>\<open>"%Y-%m-%dT%H:%M:%SZ"\<close>.
\<close>

definition CLUSTERS :: "(string \<times> cluster) list" where
  "CLUSTERS =
     [(''cluster1'', \<lparr>uri = MONGO_ATLAS_URI_1,
                      start_date = mk_datetime 2024 1 1 0 0 0 0,
                      end_date = mk_datetime 2024 3 1 23 59 59 0\<rparr>),
      (''cluster2'', \<lparr>uri = MONGO_ATLAS_URI_2,
                      start_date = mk_datetime 2024 3 2 0 0 0 0,
                      end_date = mk_datetime 2024 4 26 23 59 59 0\<rparr>),
      (''cluster3'', \<lparr>uri = MONGO_ATLAS_URI_3,
                      start_date = mk_datetime 2024 4 27 0 0 0 0,
                      end_date = mk_datetime 2024 6 30 23 59 59 0\<rparr>)]"

text \<open>\<^verbatim>\<open>start <= date_obj <= end\<close>\<close>

definition in_window :: "cluster \<Rightarrow> datetime \<Rightarrow> bool" where
  "in_window c date_obj =
     (datetime_le (start_date c) date_obj \<and> datetime_le date_obj (end_date c))"

text \<open>
  The \<^verbatim>\<open>for\<close> loop of \<^verbatim>\<open>get_client_for_date\<close>: the first cluster of the table whose
  window holds the date returns; \<open>None\<close> is the loop running to its end.
\<close>

fun scan_clusters :: "(string \<times> cluster) list \<Rightarrow> datetime \<Rightarrow> cluster option" where
  "scan_clusters [] date_obj = None"
| "scan_clusters ((cluster_name, c) # rest) date_obj =
     (if in_window c date_obj then Some c else scan_clusters rest date_obj)"

datatype error =
    AttributeError | TypeError | ValueError | KeyError | OverflowError | UnicodeEncodeError
  | PyMongoError | S3Error

text \<open>\<^verbatim>\<open>CLUSTERS["cluster1"]["uri"]\<close>\<close>

definition cluster_uri :: "string \<Rightarrow> error + env_uri" where
  "cluster_uri k = (case map_of CLUSTERS k of None \<Rightarrow> Inl KeyError | Some c \<Rightarrow> Inr (uri c))"

text \<open>\<^verbatim>\<open>get_client_for_date(date_obj)\<close> of \<^verbatim>\<open>db.ipynb\<close>.\<close>

definition db_get_client_for_date :: "datetime \<Rightarrow> error + mongo_client" where
  "db_get_client_for_date date_obj =
     (case scan_clusters CLUSTERS date_obj of
        Some c \<Rightarrow> Inr (MongoClient (uri c))
      | None \<Rightarrow> map_sum id MongoClient (cluster_uri ''cluster1''))"

section \<open>Values decoded from JSON\<close>

text \<open>
  What \<^verbatim>\<open>json.loads\<close> returns: \<^verbatim>\<open>None\<close>, a bool, an int, a float (its 64 bits), a
  \<^verbatim>\<open>str\<close>, a list or a dict. A dict is kept as its items. A \<^verbatim>\<open>str\<close> is kept as the UTF-8
  bytes of its code points; a lone surrogate, which \<^verbatim>\<open>json.loads\<close> returns for an escape
  that is not paired (that of U+D83D alone, say), is kept as the three bytes its code point
  takes in that scheme (\<open>ED A0..BF xx\<close>).
\<close>

datatype json =
    JNull | JBool bool | JInt int | JFloat "64 word" | JStr string
  | JArr "json list" | JObj "(string \<times> json) list"

type_synonym pydict = "(string \<times> json) list"

text \<open>\<^verbatim>\<open>d.get(k)\<close> and \<^verbatim>\<open>d.get(k, default)\<close>\<close>

definition dict_get :: "pydict \<Rightarrow> string \<Rightarrow> json" where
  "dict_get d k = (case map_of d k of None \<Rightarrow> JNull | Some v \<Rightarrow> v)"

definition dict_get_default :: "pydict \<Rightarrow> string \<Rightarrow> json \<Rightarrow> json" where
  "dict_get_default d k dflt = (case map_of d k of None \<Rightarrow> dflt | Some v \<Rightarrow> v)"

text \<open>Python's truth value, which \<^verbatim>\<open>a or b\<close> tests: \<^verbatim>\<open>a\<close> if it is true, else \<^verbatim>\<open>b\<close>.\<close>

fun truthy :: "json \<Rightarrow> bool" where
  "truthy JNull = False"
| "truthy (JBool b) = b"
| "truthy (JInt i) = (i \<noteq> 0)"
| "truthy (JFloat w) = (w \<noteq> 0 \<and> w \<noteq> 0x8000000000000000)"
| "truthy (JStr s) = (s \<noteq> [])"
| "truthy (JArr xs) = (xs \<noteq> [])"
| "truthy (JObj kvs) = (kvs \<noteq> [])"

definition py_or :: "json \<Rightarrow> json \<Rightarrow> json" where
  "py_or a b = (if truthy a then a else b)"

text \<open>
  \<^verbatim>\<open>str.lower\<close>. On the bytes of a UTF-8 string it is taken on the ASCII letters, which
  is what decides whether one of the (ASCII, lower-case) keywords occurs.
\<close>

definition lower_char :: "char \<Rightarrow> char" where
  "lower_char c =
     (case map_of (zip ''ABCDEFGHIJKLMNOPQRSTUVWXYZ'' ''abcdefghijklmnopqrstuvwxyz'') c of
        Some l \<Rightarrow> l | None \<Rightarrow> c)"

definition lower :: "string \<Rightarrow> string" where
  "lower s = map lower_char s"

text \<open>\<^verbatim>\<open>v.lower()\<close>: only a \<^verbatim>\<open>str\<close> has the method.\<close>

definition py_lower :: "json \<Rightarrow> error + string" where
  "py_lower v = (case v of JStr s \<Rightarrow> Inr (lower s) | _ \<Rightarrow> Inl AttributeError)"

text \<open>
  \<^verbatim>\<open>v.encode('utf-8')\<close>: only a \<^verbatim>\<open>str\<close> has the method, and it raises \<^verbatim>\<open>UnicodeEncodeError\<close>
  on a \<^verbatim>\<open>str\<close> that holds a surrogate. The byte \<open>ED\<close> only ever starts a code point, and
  the code point is a surrogate when the next byte is in \<open>A0..BF\<close>.
\<close>

fun has_surrogate :: "string \<Rightarrow> bool" where
  "has_surrogate (c1 # c2 # cs) =
     ((of_char c1 = (237 :: nat) \<and> (160 :: nat) \<le> of_char c2 \<and> of_char c2 \<le> (191 :: nat))
      \<or> has_surrogate (c2 # cs))"
| "has_surrogate cs = False"

definition py_encode :: "json \<Rightarrow> error + string" where
  "py_encode v =
     (case v of
        JStr s \<Rightarrow> if has_surrogate s then Inl UnicodeEncodeError else Inr s
      | _ \<Rightarrow> Inl AttributeError)"

section \<open>Library functions and external services\<close>

text \<open>
  The library functions the notebooks call, whose code is not theirs, are parameters
  of the model:
  \<^item> \<open>md5_hexdigest L b\<close> is \<^verbatim>\<open>hashlib.md5(b).hexdigest()\<close>;
  \<^item> \<open>py_str L v\<close> is \<^verbatim>\<open>str(v)\<close>;
  \<^item> \<open>strptime L s fmt\<close> is \<^verbatim>\<open>datetime.strptime(s, fmt)\<close> on a \<^verbatim>\<open>str\<close>, \<open>None\<close> where it
    raises \<^verbatim>\<open>ValueError\<close>;
  \<^item> \<open>strftime L t fmt\<close> is \<^verbatim>\<open>t.strftime(fmt)\<close>;
  \<^item> \<open>decode_replace L b\<close> is \<^verbatim>\<open>b.decode("utf-8", errors="replace")\<close>, which never raises;
  \<^item> \<open>str_strip L s\<close> is \<^verbatim>\<open>s.strip()\<close>;
  \<^item> \<open>json_loads L s\<close> is \<^verbatim>\<open>json.loads(s)\<close>: the value, a \<^verbatim>\<open>JSONDecodeError\<close> with its
    message, or another exception.
\<close>

datatype loads_outcome = Parsed json | RaisesJSONDecodeError string | RaisesOther error

record lib =
  md5_hexdigest :: "string \<Rightarrow> string"
  py_str :: "json \<Rightarrow> string"
  strptime :: "string \<Rightarrow> string \<Rightarrow> datetime option"
  strftime :: "datetime \<Rightarrow> string \<Rightarrow> string"
  decode_replace :: "string \<Rightarrow> string"
  str_strip :: "string \<Rightarrow> string"
  json_loads :: "string \<Rightarrow> loads_outcome"

text \<open>
  What \<^verbatim>\<open>collection.insert_many(documents, ordered=False)\<close> does: it returns an
  \<^verbatim>\<open>InsertManyResult\<close> with its \<^verbatim>\<open>inserted_ids\<close>, or raises \<^verbatim>\<open>BulkWriteError\<close> whose
  \<^verbatim>\<open>details\<close> hold \<^verbatim>\<open>nInserted\<close> and the list \<^verbatim>\<open>writeErrors\<close> (each with the index of
  its document and an error code, 11000 for a duplicate key), or raises
  \<^verbatim>\<open>ServerSelectionTimeoutError\<close>, or raises another exception: another failure of the
  connection (\<^verbatim>\<open>AutoReconnect\<close>, \<^verbatim>\<open>NetworkTimeout\<close>) or of the operation.
\<close>

record write_error =
  index :: nat
  code :: nat

datatype insert_outcome =
    InsertManyResult "json list"
  | BulkWriteError nat "write_error list"
  | ServerSelectionTimeoutError
  | OtherInsertError

text \<open>
  The services outside the process, over a state \<open>'s\<close> of the document store:
  \<^item> \<open>insert_many S s u docs\<close>: the bulk insert into \<^verbatim>\<open>gdelt_news.articles\<close> of the cluster
    at \<open>u\<close>, with the store's next state;
  \<^item> \<open>dbstats S s u\<close>: \<^verbatim>\<open>storageSize\<close> of \<^verbatim>\<open>db.command("dbstats")\<close> on that cluster, \<open>None\<close>
    where the command raises;
  \<^item> \<open>s3_list_objects S bucket prefix\<close>: the keys of \<^verbatim>\<open>Contents\<close> in the answer of
    \<^verbatim>\<open>list_objects_v2\<close> (none when the answer has no \<^verbatim>\<open>Contents\<close>);
  \<^item> \<open>s3_get_lines S bucket key\<close>: the lines of the decompressed object, each with its
    line end, as bytes; an error where \<^verbatim>\<open>get_object\<close> or the decompression raises.
\<close>

record 's services =
  insert_many :: "'s \<Rightarrow> env_uri \<Rightarrow> pydict list \<Rightarrow> insert_outcome \<times> 's"
  dbstats :: "'s \<Rightarrow> env_uri \<Rightarrow> nat option"
  s3_list_objects :: "string \<Rightarrow> string \<Rightarrow> error + string list"
  s3_get_lines :: "string \<Rightarrow> string \<Rightarrow> error + string list"

text \<open>
  The effects of a run, in the order they happen: clients opened, bulk inserts
  issued, sleeps, console lines, and lines appended to \<^verbatim>\<open>etl_log.txt\<close>.
\<close>

datatype event =
    Connect env_uri
  | InsertMany env_uri "pydict list"
  | DbStats env_uri
  | Sleep nat
  | PrintRetry nat
  | PrintAllRetriesFailed
  | PrintProcessingFile string
  | PrintSkippingCorrupted string string
  | PrintProcessing string
  | PrintFinished string nat nat
  | LogLine string nat nat
  | PrintStorage rat
  | PrintStopping

record 's world =
  mongo :: 's
  trace :: "event list"

definition emit :: "event \<Rightarrow> 's world \<Rightarrow> 's world" where
  "emit e w = w\<lparr>trace := trace w @ [e]\<rparr>"

section \<open>Routing by string timestamp, and the query layer's selector\<close>

text \<open>\<^verbatim>\<open>get_client_for_date(date_str)\<close> of \<^verbatim>\<open>mongo.ipynb\<close>: parse, then the same scan.\<close>

definition mongo_get_client_for_date :: "lib \<Rightarrow> string \<Rightarrow> error + mongo_client" where
  "mongo_get_client_for_date L date_str =
     (case strptime L date_str ''%Y-%m-%dT%H:%M:%SZ'' of
        None \<Rightarrow> Inl ValueError
      | Some date_obj \<Rightarrow>
          (case scan_clusters CLUSTERS date_obj of
             Some c \<Rightarrow> Inr (MongoClient (uri c))
           | None \<Rightarrow> map_sum id MongoClient (cluster_uri ''cluster1'')))"

text \<open>\<^verbatim>\<open>get_collection_for_date(date_str)\<close> of the query layer, over its three collections.\<close>

record collection =
  client :: mongo_client
  db_name :: string
  coll_name :: string

definition articles1 :: collection where
  "articles1 = \<lparr>client = MongoClient MONGO_ATLAS_URI_1, db_name = ''stock_analysis'', coll_name = ''articles''\<rparr>"

definition articles2 :: collection where
  "articles2 = \<lparr>client = MongoClient MONGO_ATLAS_URI_2, db_name = ''stock_analysis'', coll_name = ''articles''\<rparr>"

definition articles3 :: collection where
  "articles3 = \<lparr>client = MongoClient MONGO_ATLAS_URI_3, db_name = ''stock_analysis'', coll_name = ''articles''\<rparr>"

definition get_collection_for_date :: "lib \<Rightarrow> string \<Rightarrow> error + collection" where
  "get_collection_for_date L date_str =
     (case strptime L date_str ''%Y-%m-%d'' of
        None \<Rightarrow> Inl ValueError
      | Some date_obj \<Rightarrow>
          Inr (if datetime_le (mk_datetime 2024 4 27 0 0 0 0) date_obj then articles3
               else if datetime_le (mk_datetime 2024 3 2 0 0 0 0) date_obj then articles2
               else articles1))"

section \<open>The batch writer: \<^verbatim>\<open>insert_articles\<close>\<close>

definition KEYWORDS :: "string list" where
  "KEYWORDS = [''tesla'', ''apple'', ''google'', ''nvidia'', ''microsoft'']"

text \<open>
  The body of the loop \<^verbatim>\<open>for article in articles\<close>: \<open>Inr None\<close> is \<^verbatim>\<open>continue\<close>,
  \<open>Inr (Some doc)\<close> the document appended, \<open>Inl e\<close> an exception nothing catches.
  \<^verbatim>\<open>keyword in title\<close> on two strings is \<^const>\<open>sublist\<close>.
\<close>

definition prepare_document :: "lib \<Rightarrow> json \<Rightarrow> error + pydict option" where
  "prepare_document L article =
     (case article of
        JObj a \<Rightarrow>
          if dict_get a ''lang'' \<noteq> JStr ''ENGLISH'' then Inr None
          else
            (case py_lower (dict_get_default a ''title'' (JStr [])) of
               Inl e \<Rightarrow> Inl e
             | Inr title \<Rightarrow>
                 (case py_lower (dict_get_default a ''url'' (JStr [])) of
                    Inl e \<Rightarrow> Inl e
                  | Inr url \<Rightarrow>
                      if \<not> list_ex (\<lambda>keyword. sublist keyword title \<or> sublist keyword url) KEYWORDS
                      then Inr None
                      else
                        (case py_encode (py_or (dict_get a ''url'')
                                 (py_or (dict_get a ''title'') (JStr (py_str L article)))) of
                           Inl e \<Rightarrow> Inl e
                         | Inr url_or_title \<Rightarrow>
                             Inr (Some
                               [(''_id'', JStr (md5_hexdigest L url_or_title)),
                                (''date'', dict_get a ''date''),
                                (''title'', dict_get a ''title''),
                                (''url'', dict_get a ''url''),
                                (''lang'', dict_get a ''lang''),
                                (''docembed'', dict_get_default a ''docembed'' (JArr []))]))))
      | _ \<Rightarrow> Inl AttributeError)"

fun prepare_loop :: "lib \<Rightarrow> json list \<Rightarrow> pydict list \<Rightarrow> error + pydict list" where
  "prepare_loop L [] documents = Inr documents"
| "prepare_loop L (article # rest) documents =
     (case prepare_document L article of
        Inl e \<Rightarrow> Inl e
      | Inr None \<Rightarrow> prepare_loop L rest documents
      | Inr (Some doc) \<Rightarrow> prepare_loop L rest (documents @ [doc]))"

text \<open>
  \<^verbatim>\<open>get_client_for_date(documents[0]["date"])\<close>: \<^verbatim>\<open>strptime\<close> raises \<^verbatim>\<open>TypeError\<close> on a
  date that is not a \<^verbatim>\<open>str\<close>.
\<close>

definition client_for_first :: "lib \<Rightarrow> pydict list \<Rightarrow> error + mongo_client" where
  "client_for_first L documents =
     (case documents of
        [] \<Rightarrow> Inl KeyError
      | doc # _ \<Rightarrow>
          (case map_of doc ''date'' of
             None \<Rightarrow> Inl KeyError
           | Some (JStr date_str) \<Rightarrow> mongo_get_client_for_date L date_str
           | Some _ \<Rightarrow> Inl TypeError))"

text \<open>
  The loop \<^verbatim>\<open>while retries > 0\<close> with its \<^verbatim>\<open>try\<close>, from the values of \<^verbatim>\<open>retries\<close>,
  \<^verbatim>\<open>inserted_count\<close> and \<^verbatim>\<open>duplicate_count\<close> at the loop's head to their values after it.
\<close>

fun retry_loop ::
  "lib \<Rightarrow> 's services \<Rightarrow> pydict list \<Rightarrow> nat \<Rightarrow> nat \<Rightarrow> nat \<Rightarrow> 's world
     \<Rightarrow> (error + nat \<times> nat \<times> nat) \<times> 's world" where
  "retry_loop L S documents 0 inserted_count duplicate_count w =
     (Inr (0, inserted_count, duplicate_count), w)"
| "retry_loop L S documents (Suc r) inserted_count duplicate_count w =
     (case client_for_first L documents of
        Inl e \<Rightarrow> (Inl e, w)
      | Inr (MongoClient u) \<Rightarrow>
          (case insert_many S (mongo w) u documents of
             (InsertManyResult inserted_ids, s) \<Rightarrow>
               (Inr (Suc r, length inserted_ids, duplicate_count),
                \<lparr>mongo = s, trace = trace w @ [Connect u, InsertMany u documents]\<rparr>)
           | (BulkWriteError nInserted writeErrors, s) \<Rightarrow>
               (Inr (Suc r, nInserted, length writeErrors),
                \<lparr>mongo = s, trace = trace w @ [Connect u, InsertMany u documents]\<rparr>)
           | (ServerSelectionTimeoutError, s) \<Rightarrow>
               retry_loop L S documents r inserted_count duplicate_count
                 \<lparr>mongo = s,
                  trace = trace w @ [Connect u, InsertMany u documents, PrintRetry r, Sleep 5]\<rparr>
           | (OtherInsertError, s) \<Rightarrow>
               (Inl PyMongoError,
                \<lparr>mongo = s, trace = trace w @ [Connect u, InsertMany u documents]\<rparr>)))"

definition insert_articles ::
  "lib \<Rightarrow> 's services \<Rightarrow> json list \<Rightarrow> 's world \<Rightarrow> (error + nat \<times> nat) \<times> 's world" where
  "insert_articles L S articles w =
     (case prepare_loop L articles [] of
        Inl e \<Rightarrow> (Inl e, w)
      | Inr documents \<Rightarrow>
          if documents \<noteq> [] then
            (case retry_loop L S documents 3 0 0 w of
               (Inl e, w') \<Rightarrow> (Inl e, w')
             | (Inr (retries, inserted_count, duplicate_count), w') \<Rightarrow>
                 (Inr (inserted_count, duplicate_count),
                  if retries = 0 then emit PrintAllRetriesFailed w' else w'))
          else (Inr (0, 0), w))"

section \<open>The archive lister and reader, and one day's ingestion\<close>

definition BATCH_SIZE :: nat where
  "BATCH_SIZE = 500"

definition list_gz_files_for_day :: "'s services \<Rightarrow> string \<Rightarrow> string \<Rightarrow> error + string list" where
  "list_gz_files_for_day S bucket date_str =
     (case s3_list_objects S bucket (date_str @ ''/'') of
        Inl e \<Rightarrow> Inl e
      | Inr contents \<Rightarrow> Inr (sort (filter (suffix ''.gz'') contents)))"

text \<open>
  The loop \<^verbatim>\<open>for line in gz\<close> with its \<^verbatim>\<open>try\<close>: only \<^verbatim>\<open>json.JSONDecodeError\<close> is caught.
\<close>

fun read_lines ::
  "lib \<Rightarrow> string \<Rightarrow> string list \<Rightarrow> json list \<Rightarrow> 's world \<Rightarrow> (error + json list) \<times> 's world" where
  "read_lines L key [] records w = (Inr records, w)"
| "read_lines L key (line # rest) records w =
     (let text = str_strip L (decode_replace L line) in
      if text = [] then read_lines L key rest records w
      else
        (case json_loads L text of
           Parsed data \<Rightarrow> read_lines L key rest (records @ [data]) w
         | RaisesJSONDecodeError e \<Rightarrow>
             read_lines L key rest records (emit (PrintSkippingCorrupted key e) w)
         | RaisesOther e \<Rightarrow> (Inl e, w)))"

definition read_gz_file_from_s3 ::
  "lib \<Rightarrow> 's services \<Rightarrow> string \<Rightarrow> string \<Rightarrow> 's world \<Rightarrow> (error + json list) \<times> 's world" where
  "read_gz_file_from_s3 L S bucket key w =
     (case s3_get_lines S bucket key of
        Inl e \<Rightarrow> (Inl e, w)
      | Inr lines \<Rightarrow> read_lines L key lines [] w)"

text \<open>
  The loop \<^verbatim>\<open>for key in keys\<close> of \<^verbatim>\<open>process_articles_for_day\<close>, from \<^verbatim>\<open>total_inserted\<close>,
  \<^verbatim>\<open>total_duplicates\<close> and \<^verbatim>\<open>pending_batch\<close> at the loop's head to their values after it.
\<close>

fun process_keys ::
  "lib \<Rightarrow> 's services \<Rightarrow> string \<Rightarrow> string list \<Rightarrow> nat \<Rightarrow> nat \<Rightarrow> json list \<Rightarrow> 's world
     \<Rightarrow> (error + nat \<times> nat \<times> json list) \<times> 's world" where
  "process_keys L S bucket [] total_inserted total_duplicates pending_batch w =
     (Inr (total_inserted, total_duplicates, pending_batch), w)"
| "process_keys L S bucket (key # keys) total_inserted total_duplicates pending_batch w =
     (case read_gz_file_from_s3 L S bucket key (emit (PrintProcessingFile key) w) of
        (Inl e, w1) \<Rightarrow> (Inl e, w1)
      | (Inr articles, w1) \<Rightarrow>
          if articles \<noteq> [] then
            if length (pending_batch @ articles) \<ge> BATCH_SIZE then
              (case insert_articles L S (pending_batch @ articles) w1 of
                 (Inl e, w2) \<Rightarrow> (Inl e, w2)
               | (Inr (inserted, duplicates), w2) \<Rightarrow>
                   process_keys L S bucket keys (total_inserted + inserted)
                     (total_duplicates + duplicates) [] (emit (Sleep 1) w2))
            else process_keys L S bucket keys total_inserted total_duplicates
                   (pending_batch @ articles) w1
          else process_keys L S bucket keys total_inserted total_duplicates pending_batch w1)"

definition process_articles_for_day ::
  "lib \<Rightarrow> 's services \<Rightarrow> string \<Rightarrow> string \<Rightarrow> 's world \<Rightarrow> (error + nat \<times> nat) \<times> 's world" where
  "process_articles_for_day L S bucket date_str w =
     (case list_gz_files_for_day S bucket date_str of
        Inl e \<Rightarrow> (Inl e, w)
      | Inr keys \<Rightarrow>
          (case process_keys L S bucket keys 0 0 [] w of
             (Inl e, w1) \<Rightarrow> (Inl e, w1)
           | (Inr (total_inserted, total_duplicates, pending_batch), w1) \<Rightarrow>
               if pending_batch \<noteq> [] then
                 (case insert_articles L S pending_batch w1 of
                    (Inl e, w2) \<Rightarrow> (Inl e, w2)
                  | (Inr (inserted, duplicates), w2) \<Rightarrow>
                      (Inr (total_inserted + inserted, total_duplicates + duplicates), w2))
               else (Inr (total_inserted, total_duplicates), w1)))"

section \<open>The daily loop and the storage check\<close>

definition check_storage_limit ::
  "'s services \<Rightarrow> datetime \<Rightarrow> 's world \<Rightarrow> (error + rat) \<times> 's world" where
  "check_storage_limit S date_obj w =
     (case db_get_client_for_date date_obj of
        Inl e \<Rightarrow> (Inl e, w)
      | Inr (MongoClient u) \<Rightarrow>
          (case dbstats S (mongo w) u of
             None \<Rightarrow> (Inl PyMongoError, w\<lparr>trace := trace w @ [Connect u, DbStats u]\<rparr>)
           | Some storageSize \<Rightarrow>
               (Inr (of_nat storageSize / (1024 * 1024)),
                w\<lparr>trace := trace w @ [Connect u, DbStats u]\<rparr>)))"

text \<open>
  \<^verbatim>\<open>current_date += timedelta(days=1)\<close>: the same time on the next day of the calendar,
  \<^verbatim>\<open>OverflowError\<close> past the year 9999.
\<close>

definition days_in_month :: "nat \<Rightarrow> nat \<Rightarrow> nat" where
  "days_in_month y m =
     (if m = 2 then (if y mod 4 = 0 \<and> (y mod 100 \<noteq> 0 \<or> y mod 400 = 0) then 29 else 28)
      else if m = 4 \<or> m = 6 \<or> m = 9 \<or> m = 11 then 30 else 31)"

definition add_one_day :: "datetime \<Rightarrow> error + datetime" where
  "add_one_day t =
     (if day t < days_in_month (year t) (month t) then Inr (t\<lparr>day := day t + 1\<rparr>)
      else if month t < 12 then Inr (t\<lparr>month := month t + 1, day := 1\<rparr>)
      else if year t < 9999 then Inr (t\<lparr>year := year t + 1, month := 1, day := 1\<rparr>)
      else Inl OverflowError)"

text \<open>
  The body of the loop \<^verbatim>\<open>while current_date <= end_date\<close> ends with \<^verbatim>\<open>break\<close>, with the
  next value of \<^verbatim>\<open>current_date\<close>, or with an exception.
\<close>

datatype step = Break | Advance datetime | Raise error

definition day_body ::
  "lib \<Rightarrow> 's services \<Rightarrow> string \<Rightarrow> datetime \<Rightarrow> 's world \<Rightarrow> step \<times> 's world" where
  "day_body L S bucket current_date w =
     (let date_str = strftime L current_date ''%Y%m%d'' in
      case process_articles_for_day L S bucket date_str (emit (PrintProcessing date_str) w) of
        (Inl e, w1) \<Rightarrow> (Raise e, w1)
      | (Inr (inserted, duplicates), w1) \<Rightarrow>
          (case check_storage_limit S current_date
                  (emit (LogLine date_str inserted duplicates)
                     (emit (PrintFinished date_str inserted duplicates) w1)) of
             (Inl e, w2) \<Rightarrow> (Raise e, w2)
           | (Inr storage_mb, w2) \<Rightarrow>
               if storage_mb > 490
               then (Break, emit PrintStopping (emit (PrintStorage storage_mb) w2))
               else
                 (case add_one_day current_date of
                    Inl e \<Rightarrow> (Raise e, emit (PrintStorage storage_mb) w2)
                  | Inr next_date \<Rightarrow> (Advance next_date, emit (PrintStorage storage_mb) w2))))"

text \<open>
  How \<^verbatim>\<open>load_articles_for_date_range\<close> ends: the range is exhausted, the storage check
  stopped it at a day, or an exception left it.
\<close>

datatype run_end = Completed | Halted datetime | Raised error

lemma days_in_month_le: "days_in_month y m \<le> 31"
  by (simp add: days_in_month_def)

lemma day_body_Advance:
  assumes "day_body L S bucket current_date w = (Advance next_date, w')"
  shows "add_one_day current_date = Inr next_date"
  using assms
  by (auto simp: day_body_def Let_def split: prod.splits sum.splits if_splits)

function load_articles_for_date_range ::
  "lib \<Rightarrow> 's services \<Rightarrow> string \<Rightarrow> datetime \<Rightarrow> datetime \<Rightarrow> 's world \<Rightarrow> run_end \<times> 's world" where
  "load_articles_for_date_range L S bucket current_date end_day w =
     (if datetime_le current_date end_day then
        (case day_body L S bucket current_date w of
           (Break, w') \<Rightarrow> (Halted current_date, w')
         | (Raise e, w') \<Rightarrow> (Raised e, w')
         | (Advance next_date, w') \<Rightarrow>
             load_articles_for_date_range L S bucket next_date end_day w')
      else (Completed, w))"
  by pat_completeness auto

termination load_articles_for_date_range
proof (relation "measures [\<lambda>(L, S, bucket, current_date, end_day, w). 9999 - year current_date,
                          \<lambda>(L, S, bucket, current_date, end_day, w). 12 - month current_date,
                          \<lambda>(L, S, bucket, current_date, end_day, w). 31 - day current_date]", goal_cases)
  case 1
  show ?case by simp
next
  case (2 L S bucket current_date end_day w r w' next_date)
  from 2 have n: "add_one_day current_date = Inr next_date"
    by (auto dest: day_body_Advance sym)
  have "day current_date < days_in_month (year current_date) (month current_date) \<Longrightarrow> day current_date < 31"
    using days_in_month_le [of "year current_date" "month current_date"] by simp
  with n show ?case
    by (auto simp: add_one_day_def split: if_splits)
qed

section \<open>Notions of the specification\<close>

text \<open>
  The text that \<^verbatim>\<open>article.get(k, "")\<close> yields for a field: empty when the key is absent,
  the string when the value is one, and \<open>None\<close> when the value is not a \<^verbatim>\<open>str\<close>.
\<close>

definition field_text :: "pydict \<Rightarrow> string \<Rightarrow> string option" where
  "field_text a k =
     (case map_of a k of None \<Rightarrow> Some [] | Some (JStr s) \<Rightarrow> Some s | Some _ \<Rightarrow> None)"

text \<open>A keyword occurs in a text as a case-insensitive substring.\<close>

definition ci_substring :: "string \<Rightarrow> string \<Rightarrow> bool" where
  "ci_substring k s = (\<exists>p. sublist p s \<and> lower p = lower k)"

text \<open>A byte string is well-formed UTF-8 (RFC 3629): what decoding without replacement accepts.\<close>

definition continuation :: "nat \<Rightarrow> bool" where
  "continuation b = (128 \<le> b \<and> b \<le> 191)"

fun utf8_valid :: "nat list \<Rightarrow> bool" where
  "utf8_valid [] = True"
| "utf8_valid (b # bs) =
     (if b < 128 then utf8_valid bs
      else if 194 \<le> b \<and> b \<le> 223 then
        (case bs of c1 # r \<Rightarrow> continuation c1 \<and> utf8_valid r | _ \<Rightarrow> False)
      else if 224 \<le> b \<and> b \<le> 239 then
        (case bs of
           c1 # c2 # r \<Rightarrow>
             continuation c1 \<and> (b = 224 \<longrightarrow> 160 \<le> c1) \<and> (b = 237 \<longrightarrow> c1 \<le> 159)
             \<and> continuation c2 \<and> utf8_valid r
         | _ \<Rightarrow> False)
      else if 240 \<le> b \<and> b \<le> 244 then
        (case bs of
           c1 # c2 # c3 # r \<Rightarrow>
             continuation c1 \<and> (b = 240 \<longrightarrow> 144 \<le> c1) \<and> (b = 244 \<longrightarrow> c1 \<le> 143)
             \<and> continuation c2 \<and> continuation c3 \<and> utf8_valid r
         | _ \<Rightarrow> False)
      else False)"

text \<open>
  What the reader is to return for the lines of an archive: the values of the lines
  whose stripped text is not empty and parses, in order; and what it is to print: one
  diagnostic, naming the key, for each line whose stripped text is not empty and does
  not parse.
\<close>

definition line_outcome :: "lib \<Rightarrow> string \<Rightarrow> loads_outcome option" where
  "line_outcome L line =
     (let text = str_strip L (decode_replace L line) in
      if text = [] then None else Some (json_loads L text))"

definition parsed_records :: "lib \<Rightarrow> string list \<Rightarrow> json list" where
  "parsed_records L lines =
     concat (map (\<lambda>line. case line_outcome L line of Some (Parsed data) \<Rightarrow> [data] | _ \<Rightarrow> []) lines)"

definition skipped_diagnostics :: "lib \<Rightarrow> string \<Rightarrow> string list \<Rightarrow> event list" where
  "skipped_diagnostics L key lines =
     concat (map (\<lambda>line. case line_outcome L line of
                            Some (RaisesJSONDecodeError e) \<Rightarrow> [PrintSkippingCorrupted key e]
                          | _ \<Rightarrow> []) lines)"

text \<open>A bulk insert of the trace that carries at most \<open>k\<close> documents.\<close>

definition writes_at_most :: "nat \<Rightarrow> event \<Rightarrow> bool" where
  "writes_at_most k e = (case e of InsertMany u docs \<Rightarrow> length docs \<le> k | _ \<Rightarrow> True)"

text \<open>The events a computation adds to the trace all satisfy \<open>P\<close>.\<close>

definition adds_only :: "(event \<Rightarrow> bool) \<Rightarrow> 's world \<Rightarrow> 's world \<Rightarrow> bool" where
  "adds_only P w w' = (\<exists>evs. trace w' = trace w @ evs \<and> list_all P evs)"

text \<open>
  What the day-level writer is to flush, given the records of the day's archives in
  order: the records of each archive are appended to the pending batch, and the batch is
  flushed, whole, once it holds at least \<open>BATCH_SIZE\<close> records (\<open>flushed_midday\<close>); the
  batch left after the last archive (\<open>pending_after\<close>) is flushed at day end when it is not
  empty.
\<close>

fun flushed_midday :: "json list \<Rightarrow> json list list \<Rightarrow> json list list" where
  "flushed_midday pending [] = []"
| "flushed_midday pending (articles # rest) =
     (if BATCH_SIZE \<le> length (pending @ articles)
      then (pending @ articles) # flushed_midday [] rest
      else flushed_midday (pending @ articles) rest)"

fun pending_after :: "json list \<Rightarrow> json list list \<Rightarrow> json list" where
  "pending_after pending [] = pending"
| "pending_after pending (articles # rest) =
     (if BATCH_SIZE \<le> length (pending @ articles)
      then pending_after [] rest
      else pending_after (pending @ articles) rest)"

definition day_batches :: "json list list \<Rightarrow> json list list" where
  "day_batches files =
     flushed_midday [] files @ (if pending_after [] files \<noteq> [] then [pending_after [] files] else [])"

text \<open>
  An archive is readable when it downloads and decompresses and \<^verbatim>\<open>json.loads\<close> returns or
  raises \<^verbatim>\<open>JSONDecodeError\<close> on each of its lines; its records are the values of the lines
  that parse.
\<close>

definition archive_readable :: "lib \<Rightarrow> 's services \<Rightarrow> string \<Rightarrow> string \<Rightarrow> bool" where
  "archive_readable L S bucket key =
     (case s3_get_lines S bucket key of
        Inl e \<Rightarrow> False
      | Inr lines \<Rightarrow>
          list_all (\<lambda>line. case line_outcome L line of Some (RaisesOther e) \<Rightarrow> False | _ \<Rightarrow> True) lines)"

definition archive_records :: "lib \<Rightarrow> 's services \<Rightarrow> string \<Rightarrow> string \<Rightarrow> json list" where
  "archive_records L S bucket key =
     (case s3_get_lines S bucket key of Inl e \<Rightarrow> [] | Inr lines \<Rightarrow> parsed_records L lines)"

text \<open>
  Flushing batches one after the other: \<^verbatim>\<open>insert_articles\<close> on each, the counts added up,
  until one raises. A write is a bulk insert of the trace; two worlds have the same
  writes when their stores are equal and their traces hold the same bulk inserts in the
  same order.
\<close>

fun flush_batches ::
  "lib \<Rightarrow> 's services \<Rightarrow> json list list \<Rightarrow> nat \<Rightarrow> nat \<Rightarrow> 's world
     \<Rightarrow> (error + nat \<times> nat) \<times> 's world" where
  "flush_batches L S [] total_inserted total_duplicates w = (Inr (total_inserted, total_duplicates), w)"
| "flush_batches L S (batch # batches) total_inserted total_duplicates w =
     (case insert_articles L S batch w of
        (Inl e, w1) \<Rightarrow> (Inl e, w1)
      | (Inr (inserted, duplicates), w1) \<Rightarrow>
          flush_batches L S batches (total_inserted + inserted) (total_duplicates + duplicates) w1)"

definition is_write :: "event \<Rightarrow> bool" where
  "is_write e = (case e of InsertMany u docs \<Rightarrow> True | _ \<Rightarrow> False)"

definition same_writes :: "'s world \<Rightarrow> 's world \<Rightarrow> bool" where
  "same_writes w1 w2 = (mongo w1 = mongo w2 \<and> filter is_write (trace w1) = filter is_write (trace w2))"

section \<open>MD5 (RFC 1321), for evaluating identities on examples\<close>

definition md5_K :: "32 word list" where
  "md5_K =
    [0xd76aa478, 0xe8c7b756, 0x242070db, 0xc1bdceee, 0xf57c0faf, 0x4787c62a, 0xa8304613, 0xfd469501,
     0x698098d8, 0x8b44f7af, 0xffff5bb1, 0x895cd7be, 0x6b901122, 0xfd987193, 0xa679438e, 0x49b40821,
     0xf61e2562, 0xc040b340, 0x265e5a51, 0xe9b6c7aa, 0xd62f105d, 0x02441453, 0xd8a1e681, 0xe7d3fbc8,
     0x21e1cde6, 0xc33707d6, 0xf4d50d87, 0x455a14ed, 0xa9e3e905, 0xfcefa3f8, 0x676f02d9, 0x8d2a4c8a,
     0xfffa3942, 0x8771f681, 0x6d9d6122, 0xfde5380c, 0xa4beea44, 0x4bdecfa9, 0xf6bb4b60, 0xbebfbc70,
     0x289b7ec6, 0xeaa127fa, 0xd4ef3085, 0x04881d05, 0xd9d4d039, 0xe6db99e5, 0x1fa27cf8, 0xc4ac5665,
     0xf4292244, 0x432aff97, 0xab9423a7, 0xfc93a039, 0x655b59c3, 0x8f0ccc92, 0xffeff47d, 0x85845dd1,
     0x6fa87e4f, 0xfe2ce6e0, 0xa3014314, 0x4e0811a1, 0xf7537e82, 0xbd3af235, 0x2ad7d2bb, 0xeb86d391]"

definition md5_s :: "nat list" where
  "md5_s = [7, 12, 17, 22, 7, 12, 17, 22, 7, 12, 17, 22, 7, 12, 17, 22,
            5, 9, 14, 20, 5, 9, 14, 20, 5, 9, 14, 20, 5, 9, 14, 20,
            4, 11, 16, 23, 4, 11, 16, 23, 4, 11, 16, 23, 4, 11, 16, 23,
            6, 10, 15, 21, 6, 10, 15, 21, 6, 10, 15, 21, 6, 10, 15, 21]"

definition rotl32 :: "32 word \<Rightarrow> nat \<Rightarrow> 32 word" where
  "rotl32 x n = (push_bit n x) OR (drop_bit (32 - n) x)"

definition le_word :: "nat list \<Rightarrow> 32 word" where
  "le_word bs = foldr (\<lambda>b acc. word_of_nat b + 256 * acc) bs 0"

fun chunks :: "nat \<Rightarrow> 'a list \<Rightarrow> 'a list list" where
  "chunks n [] = []"
| "chunks n (x # xs) = (if n = 0 then [] else take n (x # xs) # chunks n (drop n (x # xs)))"

definition md5_pad :: "nat list \<Rightarrow> nat list" where
  "md5_pad m =
     (let l = length m;
          z = (119 - l mod 64) mod 64;
          bits = 8 * int l
      in m @ [128] @ replicate z 0 @ map (\<lambda>i. nat ((bits div 256 ^ i) mod 256)) [0..<8])"

type_synonym md5_state = "32 word \<times> 32 word \<times> 32 word \<times> 32 word"

definition md5_step :: "32 word list \<Rightarrow> md5_state \<Rightarrow> nat \<Rightarrow> md5_state" where
  "md5_step M st i =
     (case st of (A, B, C, D) \<Rightarrow>
        let (F, g) =
              (if i < 16 then ((B AND C) OR (NOT B AND D), i)
               else if i < 32 then ((D AND B) OR (NOT D AND C), (5 * i + 1) mod 16)
               else if i < 48 then (B XOR C XOR D, (3 * i + 5) mod 16)
               else (C XOR (B OR NOT D), (7 * i) mod 16));
            F' = F + A + md5_K ! i + M ! g
        in (D, B + rotl32 F' (md5_s ! i), B, C))"

definition md5_block :: "md5_state \<Rightarrow> nat list \<Rightarrow> md5_state" where
  "md5_block st blk =
     (case st of (a0, b0, c0, d0) \<Rightarrow>
        (case foldl (md5_step (map le_word (chunks 4 blk))) st [0..<64] of
           (A, B, C, D) \<Rightarrow> (a0 + A, b0 + B, c0 + C, d0 + D)))"

definition hex_digit :: "nat \<Rightarrow> char" where
  "hex_digit n = ''0123456789abcdef'' ! n"

definition word_le_hex :: "32 word \<Rightarrow> string" where
  "word_le_hex w =
     concat (map (\<lambda>i. let b = unat (drop_bit (8 * i) w AND 255)
                       in [hex_digit (b div 16), hex_digit (b mod 16)]) [0..<4])"

definition md5_hex :: "string \<Rightarrow> string" where
  "md5_hex m =
     (case foldl md5_block (0x67452301, 0xefcdab89, 0x98badcfe, 0x10325476)
             (chunks 64 (md5_pad (map of_char m))) of
        (A, B, C, D) \<Rightarrow> word_le_hex A @ word_le_hex B @ word_le_hex C @ word_le_hex D)"

section \<open>A library instance for evaluating examples\<close>

text \<open>
  On zero-padded, fixed-width strings of the three formats the notebooks use, what
  \<^verbatim>\<open>strptime\<close> reads and \<^verbatim>\<open>strftime\<close> writes; what \<^verbatim>\<open>strip\<close> gives on a line whose
  white space is ASCII; and decoding with replacement.
\<close>

definition digit_of :: "char \<Rightarrow> nat option" where
  "digit_of c = map_of (zip ''0123456789'' [0, 1, 2, 3, 4, 5, 6, 7, 8, 9]) c"

fun number_of :: "string \<Rightarrow> nat \<Rightarrow> nat option" where
  "number_of [] acc = Some acc"
| "number_of (c # cs) acc =
     (case digit_of c of None \<Rightarrow> None | Some d \<Rightarrow> number_of cs (10 * acc + d))"

definition valid_datetime :: "datetime \<Rightarrow> bool" where
  "valid_datetime t =
     (1 \<le> year t \<and> year t \<le> 9999 \<and> 1 \<le> month t \<and> month t \<le> 12
      \<and> 1 \<le> day t \<and> day t \<le> days_in_month (year t) (month t)
      \<and> second_resolution t)"

definition fields_datetime :: "nat option list \<Rightarrow> datetime option" where
  "fields_datetime fs =
     (case fs of
        [Some y, Some mo, Some d, Some h, Some mi, Some s] \<Rightarrow>
          if valid_datetime (mk_datetime y mo d h mi s 0) then Some (mk_datetime y mo d h mi s 0)
          else None
      | _ \<Rightarrow> None)"

definition slice :: "nat \<Rightarrow> nat \<Rightarrow> string \<Rightarrow> string" where
  "slice i n s = take n (drop i s)"

definition strptime_fixed :: "string \<Rightarrow> string \<Rightarrow> datetime option" where
  "strptime_fixed s fmt =
     (if fmt = ''%Y-%m-%dT%H:%M:%SZ'' then
        (if length s = 20 \<and> slice 4 1 s = ''-'' \<and> slice 7 1 s = ''-'' \<and> slice 10 1 s = ''T''
            \<and> slice 13 1 s = '':'' \<and> slice 16 1 s = '':'' \<and> slice 19 1 s = ''Z''
         then fields_datetime (map (\<lambda>(i, n). number_of (slice i n s) 0)
                [(0, 4), (5, 2), (8, 2), (11, 2), (14, 2), (17, 2)])
         else None)
      else if fmt = ''%Y-%m-%d'' then
        (if length s = 10 \<and> slice 4 1 s = ''-'' \<and> slice 7 1 s = ''-''
         then fields_datetime (map (\<lambda>(i, n). number_of (slice i n s) 0) [(0, 4), (5, 2), (8, 2)]
                @ [Some 0, Some 0, Some 0])
         else None)
      else None)"

definition two_digits :: "nat \<Rightarrow> string" where
  "two_digits n = [hex_digit (n div 10 mod 10), hex_digit (n mod 10)]"

definition strftime_fixed :: "datetime \<Rightarrow> string \<Rightarrow> string" where
  "strftime_fixed t fmt =
     (if fmt = ''%Y%m%d''
      then two_digits (year t div 100) @ two_digits (year t) @ two_digits (month t) @ two_digits (day t)
      else [])"

definition is_space :: "char \<Rightarrow> bool" where
  "is_space c = (c \<in> set [CHR '' '', CHR 0x09, CHR 0x0A, CHR 0x0B, CHR 0x0C, CHR 0x0D])"

definition strip_ascii :: "string \<Rightarrow> string" where
  "strip_ascii s = rev (dropWhile is_space (rev (dropWhile is_space s)))"

text \<open>
  \<^verbatim>\<open>b.decode("utf-8", errors="replace")\<close> as CPython computes it, on the bytes of \<open>b\<close> and
  giving the UTF-8 bytes of the decoded \<^verbatim>\<open>str\<close>: a well-formed sequence is kept; a byte that
  cannot start a sequence, and a lead byte with the continuation bytes that could follow
  it up to the first byte that cannot, become one U+FFFD (the bytes \<open>EF BF BD\<close>), and
  decoding goes on at that byte; a sequence cut off by the end of the input becomes one
  U+FFFD.
\<close>

definition replacement_character :: "nat list" where
  "replacement_character = [239, 191, 189]"

fun utf8_replace :: "nat list \<Rightarrow> nat list" where
  "utf8_replace [] = []"
| "utf8_replace (b # bs) =
     (if b < 128 then b # utf8_replace bs
      else if 194 \<le> b \<and> b \<le> 223 then
        (case bs of
           [] \<Rightarrow> replacement_character
         | c1 # r \<Rightarrow>
             if continuation c1 then b # c1 # utf8_replace r
             else replacement_character @ utf8_replace bs)
      else if 224 \<le> b \<and> b \<le> 239 then
        (case bs of
           [] \<Rightarrow> replacement_character
         | c1 # r1 \<Rightarrow>
             if \<not> (continuation c1 \<and> (b = 224 \<longrightarrow> 160 \<le> c1) \<and> (b = 237 \<longrightarrow> c1 \<le> 159))
             then replacement_character @ utf8_replace bs
             else
               (case r1 of
                  [] \<Rightarrow> replacement_character
                | c2 # r \<Rightarrow>
                    if continuation c2 then b # c1 # c2 # utf8_replace r
                    else replacement_character @ utf8_replace r1))
      else if 240 \<le> b \<and> b \<le> 244 then
        (case bs of
           [] \<Rightarrow> replacement_character
         | c1 # r1 \<Rightarrow>
             if \<not> (continuation c1 \<and> (b = 240 \<longrightarrow> 144 \<le> c1) \<and> (b = 244 \<longrightarrow> c1 \<le> 143))
             then replacement_character @ utf8_replace bs
             else
               (case r1 of
                  [] \<Rightarrow> replacement_character
                | c2 # r2 \<Rightarrow>
                    if \<not> continuation c2 then replacement_character @ utf8_replace r1
                    else
                      (case r2 of
                         [] \<Rightarrow> replacement_character
                       | c3 # r \<Rightarrow>
                           if continuation c3 then b # c1 # c2 # c3 # utf8_replace r
                           else replacement_character @ utf8_replace r2)))
      else replacement_character @ utf8_replace bs)"

definition decode_utf8_replace :: "string \<Rightarrow> string" where
  "decode_utf8_replace b = map char_of (utf8_replace (map of_char b))"

section \<open>A document store with unique identities, and services for examples\<close>

text \<open>
  The document store as section 6 of the specification describes it: each cluster's
  collection holds documents under unique \<^verbatim>\<open>_id\<close> values; an unordered bulk insert accepts
  every document whose \<^verbatim>\<open>_id\<close> the collection does not hold yet and reports a duplicate-key
  error (code 11000) for each of the others. \<open>bulk_insert held docs i\<close> gives the ids held
  afterwards, the number of documents inserted and the write errors, \<open>i\<close> being the index
  of the first document of \<open>docs\<close> in the batch.
\<close>

fun bulk_insert :: "json list \<Rightarrow> pydict list \<Rightarrow> nat \<Rightarrow> json list \<times> nat \<times> write_error list" where
  "bulk_insert held_ids [] i = (held_ids, 0, [])"
| "bulk_insert held_ids (doc # docs) i =
     (if dict_get doc ''_id'' \<in> set held_ids then
        (case bulk_insert held_ids docs (Suc i) of
           (h, n, errs) \<Rightarrow> (h, n, \<lparr>index = i, code = 11000\<rparr> # errs))
      else
        (case bulk_insert (held_ids @ [dict_get doc ''_id'']) docs (Suc i) of
           (h, n, errs) \<Rightarrow> (h, Suc n, errs)))"

text \<open>
  The state of that store: how many of the next server selections time out, the ids
  each cluster holds, and the \<^verbatim>\<open>storageSize\<close> each cluster reports.
\<close>

record store_state =
  timeouts :: nat
  held :: "env_uri \<Rightarrow> json list"
  storage :: "env_uri \<Rightarrow> nat option"

definition store_insert_many ::
  "store_state \<Rightarrow> env_uri \<Rightarrow> pydict list \<Rightarrow> insert_outcome \<times> store_state" where
  "store_insert_many s u docs =
     (case timeouts s of
        Suc n \<Rightarrow> (ServerSelectionTimeoutError, s\<lparr>timeouts := n\<rparr>)
      | 0 \<Rightarrow>
          (case bulk_insert (held s u) docs 0 of
             (h, n, errs) \<Rightarrow>
               (if errs = [] then InsertManyResult (map (\<lambda>d. dict_get d ''_id'') docs)
                else BulkWriteError n errs,
                s\<lparr>held := (held s)(u := h)\<rparr>)))"

text \<open>The bucket of the example services is a list of object keys with their lines.\<close>

definition example_services :: "(string \<times> string list) list \<Rightarrow> store_state services" where
  "example_services objects =
     \<lparr>insert_many = store_insert_many,
      dbstats = (\<lambda>s u. storage s u),
      s3_list_objects = (\<lambda>bucket pre. Inr (filter (prefix pre) (map fst objects))),
      s3_get_lines = (\<lambda>bucket key.
         case map_of objects key of None \<Rightarrow> Inl S3Error | Some lines \<Rightarrow> Inr lines)\<rparr>"

text \<open>An English article about Tesla dated 2024-01-05, and the store before any write.\<close>

definition example_article :: "string \<Rightarrow> string \<Rightarrow> json" where
  "example_article t u =
     JObj [(''lang'', JStr ''ENGLISH''), (''title'', JStr t), (''url'', JStr u),
           (''date'', JStr ''2024-01-05T10:00:00Z'')]"

definition example_document :: "string \<Rightarrow> string \<Rightarrow> string \<Rightarrow> pydict" where
  "example_document i t u =
     [(''_id'', JStr i), (''date'', JStr ''2024-01-05T10:00:00Z''), (''title'', JStr t),
      (''url'', JStr u), (''lang'', JStr ''ENGLISH''), (''docembed'', JArr [])]"

definition example_state0 :: store_state where
  "example_state0 = \<lparr>timeouts = 0, held = (\<lambda>u. []), storage = (\<lambda>u. Some 0)\<rparr>"

text \<open>
  Lines of example archives: a line holding an article; two lines that are not UTF-8, one
  with the byte \<open>0xFF\<close> inside its title and one with it after the closing brace; and
  \<open>example_loads\<close>, which is \<^verbatim>\<open>json.loads\<close> on the texts of the example lines, with the
  messages of its \<^verbatim>\<open>JSONDecodeError\<close>s (a text outside this table does not occur in an
  example).
\<close>

definition example_line :: string where
  \<open>example_line =
     ''{"lang": "ENGLISH", "title": "Tesla recalls", "url": "http://a/1", "date": "2024-01-05T10:00:00Z"}''
     @ [CHR 0x0A]\<close>

definition example_line_ff :: string where
  \<open>example_line_ff = ''{"title": "Tesla '' @ [CHR 0xFF] @ ''"}'' @ [CHR 0x0A]\<close>

definition example_line_ff_after :: string where
  \<open>example_line_ff_after = ''{"a": 1}'' @ [CHR 0xFF, CHR 0x0A]\<close>

definition example_loads :: "string \<Rightarrow> loads_outcome" where
  \<open>example_loads s =
     (if s = ''{"lang": "ENGLISH", "title": "Tesla recalls", "url": "http://a/1", "date": "2024-01-05T10:00:00Z"}''
        then Parsed (example_article ''Tesla recalls'' ''http://a/1'')
      else if s = ''{"title": "Tesla '' @ [CHR 0xEF, CHR 0xBF, CHR 0xBD] @ ''"}''
        then Parsed (JObj [(''title'', JStr (''Tesla '' @ [CHR 0xEF, CHR 0xBF, CHR 0xBD]))])
      else if s = ''{}'' then Parsed (JObj [])
      else if s = ''{"a": 1}'' @ [CHR 0xEF, CHR 0xBF, CHR 0xBD]
        then RaisesJSONDecodeError ''Extra data: line 1 column 9 (char 8)''
      else if s = ''{oops''
        then RaisesJSONDecodeError
               ''Expecting property name enclosed in double quotes: line 1 column 2 (char 1)''
      else RaisesJSONDecodeError ''Expecting value: line 1 column 1 (char 0)'')\<close>

text \<open>
  The library of the examples: MD5, the fixed-width \<^verbatim>\<open>strptime\<close> and \<^verbatim>\<open>strftime\<close>, decoding
  with replacement, \<^verbatim>\<open>strip\<close> of ASCII white space and \<^verbatim>\<open>json.loads\<close> on the example
  texts. No example reaches \<^verbatim>\<open>str(article)\<close>, which is left empty.
\<close>

definition example_lib :: lib where
  "example_lib =
     \<lparr>md5_hexdigest = md5_hex,
      py_str = (\<lambda>v. []),
      strptime = strptime_fixed,
      strftime = strftime_fixed,
      decode_replace = decode_utf8_replace,
      str_strip = strip_ascii,
      json_loads = example_loads\<rparr>"

section \<open>The shard router\<close>

lemma scan_clusters_None:
  "scan_clusters cs t = None \<longleftrightarrow> (\<forall>c \<in> set cs. \<not> in_window (snd c) t)"
  by (induction cs t rule: scan_clusters.induct) auto

lemma scan_clusters_first:
  "i < length cs \<Longrightarrow> in_window (snd (cs ! i)) t \<Longrightarrow> (\<forall>j<i. \<not> in_window (snd (cs ! j)) t)
     \<Longrightarrow> scan_clusters cs t = Some (snd (cs ! i))"
proof (induction cs t arbitrary: i rule: scan_clusters.induct)
  case (1 date_obj)
  then show ?case by simp
next
  case (2 cluster_name c rest date_obj)
  show ?case
  proof (cases i)
    case 0
    with 2 show ?thesis by simp
  next
    case (Suc k)
    with 2 have "\<not> in_window c date_obj" by auto
    moreover have "scan_clusters rest date_obj = Some (snd (rest ! k))"
      using 2 Suc by (intro "2.IH") auto
    ultimately show ?thesis using Suc by simp
  qed
qed

lemma cluster1_uri: "cluster_uri ''cluster1'' = Inr MONGO_ATLAS_URI_1"
  by (simp add: cluster_uri_def CLUSTERS_def)

lemma dt_le_mk:
  "datetime_le (mk_datetime y1 m1 d1 h1 i1 s1 u1) (mk_datetime y2 m2 d2 h2 i2 s2 u2) =
    (y1 < y2 \<or> y1 = y2 \<and> (m1 < m2 \<or> m1 = m2 \<and> (d1 < d2 \<or> d1 = d2 \<and>
      (h1 < h2 \<or> h1 = h2 \<and> (i1 < i2 \<or> i1 = i2 \<and> (s1 < s2 \<or> s1 = s2 \<and> u1 \<le> u2))))))"
  by (auto simp: datetime_le_def dt_tuple_def mk_datetime_def)



lemma scan_CLUSTERS:
  "scan_clusters CLUSTERS t =
     (if in_window (snd (CLUSTERS ! 0)) t then Some (snd (CLUSTERS ! 0))
      else if in_window (snd (CLUSTERS ! 1)) t then Some (snd (CLUSTERS ! 1))
      else if in_window (snd (CLUSTERS ! 2)) t then Some (snd (CLUSTERS ! 2))
      else None)"
  by (simp add: CLUSTERS_def)

text \<open>
  Claim C3. For every timestamp \<open>t\<close>, the router returns the client of the first cluster
  of the table whose inclusive window \<open>[start_date, end_date]\<close> holds \<open>t\<close>; for a \<open>t\<close>
  outside every window it returns the client of \<^verbatim>\<open>cluster1\<close>. The router of \<^verbatim>\<open>mongo.ipynb\<close>,
  given a string that \<^verbatim>\<open>strptime\<close> reads as \<open>t\<close>, returns what the router of \<^verbatim>\<open>db.ipynb\<close>
  returns on \<open>t\<close>. Both are functions of \<open>t\<close> alone.
\<close>

theorem get_client_for_date_first_window:
  "(\<forall>i. i < length CLUSTERS \<and> in_window (snd (CLUSTERS ! i)) t
          \<and> (\<forall>j<i. \<not> in_window (snd (CLUSTERS ! j)) t)
        \<longrightarrow> db_get_client_for_date t = Inr (MongoClient (uri (snd (CLUSTERS ! i)))))
   \<and> ((\<forall>c \<in> set CLUSTERS. \<not> in_window (snd c) t)
        \<longrightarrow> db_get_client_for_date t = Inr (MongoClient MONGO_ATLAS_URI_1))
   \<and> (strptime L s ''%Y-%m-%dT%H:%M:%SZ'' = Some t
        \<longrightarrow> mongo_get_client_for_date L s = db_get_client_for_date t)"
proof (intro conjI allI impI)
  fix i
  assume "i < length CLUSTERS \<and> in_window (snd (CLUSTERS ! i)) t
          \<and> (\<forall>j<i. \<not> in_window (snd (CLUSTERS ! j)) t)"
  then have "scan_clusters CLUSTERS t = Some (snd (CLUSTERS ! i))"
    by (intro scan_clusters_first) auto
  then show "db_get_client_for_date t = Inr (MongoClient (uri (snd (CLUSTERS ! i))))"
    by (simp add: db_get_client_for_date_def)
next
  assume "\<forall>c \<in> set CLUSTERS. \<not> in_window (snd c) t"
  then have "scan_clusters CLUSTERS t = None"
    by (simp only: scan_clusters_None)
  then show "db_get_client_for_date t = Inr (MongoClient MONGO_ATLAS_URI_1)"
    by (simp add: db_get_client_for_date_def cluster1_uri)
next
  assume "strptime L s ''%Y-%m-%dT%H:%M:%SZ'' = Some t"
  then show "mongo_get_client_for_date L s = db_get_client_for_date t"
    by (simp add: mongo_get_client_for_date_def db_get_client_for_date_def)
qed

theorem get_client_for_date_first_window_witness:
  "db_get_client_for_date (mk_datetime 2024 3 15 12 30 0 0) = Inr (MongoClient MONGO_ATLAS_URI_2)
   \<and> db_get_client_for_date (mk_datetime 2024 7 1 0 0 0 0) = Inr (MongoClient MONGO_ATLAS_URI_1)
   \<and> mongo_get_client_for_date example_lib ''2024-03-15T12:30:00Z''
       = Inr (MongoClient MONGO_ATLAS_URI_2)"
proof -
  let ?t = "mk_datetime 2024 3 15 12 30 0 0"
  have a: "1 < length CLUSTERS \<and> in_window (snd (CLUSTERS ! 1)) ?t
           \<and> (\<forall>j<1. \<not> in_window (snd (CLUSTERS ! j)) ?t)"
    by (simp add: CLUSTERS_def in_window_def dt_le_mk)
  have b: "\<forall>c \<in> set CLUSTERS. \<not> in_window (snd c) (mk_datetime 2024 7 1 0 0 0 0)"
    by (simp add: CLUSTERS_def in_window_def dt_le_mk)
  have p: "strptime example_lib ''2024-03-15T12:30:00Z'' ''%Y-%m-%dT%H:%M:%SZ'' = Some ?t"
    by code_simp
  have u: "uri (snd (CLUSTERS ! 1)) = MONGO_ATLAS_URI_2"
    by (simp add: CLUSTERS_def)
  have 1: "db_get_client_for_date ?t = Inr (MongoClient MONGO_ATLAS_URI_2)"
    using get_client_for_date_first_window [of ?t, THEN conjunct1, THEN spec, THEN mp, OF a] u by simp
  have 2: "db_get_client_for_date (mk_datetime 2024 7 1 0 0 0 0) = Inr (MongoClient MONGO_ATLAS_URI_1)"
    using get_client_for_date_first_window
            [of "mk_datetime 2024 7 1 0 0 0 0", THEN conjunct2, THEN conjunct1, THEN mp, OF b] .
  have 3: "mongo_get_client_for_date example_lib ''2024-03-15T12:30:00Z'' = db_get_client_for_date ?t"
    using get_client_for_date_first_window
            [of ?t example_lib "''2024-03-15T12:30:00Z''", THEN conjunct2, THEN conjunct2, THEN mp, OF p] .
  from 1 2 3 show ?thesis by simp
qed


text \<open>
  Claim C10. For every date from 2024-01-01 through 2024-06-30, read by the query layer
  from \<^verbatim>\<open>"%Y-%m-%d"\<close> and by the pipeline from a timestamp of that day at any time of the day,
  the collection selector and the two routers choose the same cluster: \<^verbatim>\<open>cluster1\<close> before
  2024-03-02, \<^verbatim>\<open>cluster2\<close> from 2024-03-02 through 2024-04-26, \<^verbatim>\<open>cluster3\<close> from 2024-04-27.
\<close>

theorem selector_agrees_with_router:
  assumes q: "strptime L d_str ''%Y-%m-%d'' = Some (mk_datetime y m d 0 0 0 0)"
    and p: "strptime L ts_str ''%Y-%m-%dT%H:%M:%SZ'' = Some (mk_datetime y m d h mi s 0)"
    and tod: "second_resolution (mk_datetime y m d h mi s 0)"
    and lo: "datetime_le (mk_datetime 2024 1 1 0 0 0 0) (mk_datetime y m d 0 0 0 0)"
    and hi: "datetime_le (mk_datetime y m d 0 0 0 0) (mk_datetime 2024 6 30 0 0 0 0)"
  shows "map_sum id client (get_collection_for_date L d_str) = mongo_get_client_for_date L ts_str
       \<and> mongo_get_client_for_date L ts_str = db_get_client_for_date (mk_datetime y m d h mi s 0)
       \<and> db_get_client_for_date (mk_datetime y m d h mi s 0) =
           Inr (MongoClient
             (if \<not> datetime_le (mk_datetime 2024 3 2 0 0 0 0) (mk_datetime y m d 0 0 0 0)
                then MONGO_ATLAS_URI_1
              else if datetime_le (mk_datetime y m d 0 0 0 0) (mk_datetime 2024 4 26 0 0 0 0)
                then MONGO_ATLAS_URI_2
              else MONGO_ATLAS_URI_3))"
proof -
  have t: "h < 24" "mi < 60" "s < 60"
    using tod by (simp_all add: second_resolution_def mk_datetime_def)
  have y: "y = 2024" and m: "1 \<le> m" "m \<le> 6" 
    using lo hi by (auto simp: dt_le_mk)
  have d: "m = 6 \<Longrightarrow> d \<le> 30" "m = 1 \<Longrightarrow> 1 \<le> d"
    using lo hi by (auto simp: dt_le_mk)
  have w: "in_window c (mk_datetime y m d h mi s 0) =
      (datetime_le (start_date c) (mk_datetime y m d h mi s 0) \<and>
       datetime_le (mk_datetime y m d h mi s 0) (end_date c))" for c
    by (simp add: in_window_def)
  have r: "db_get_client_for_date (mk_datetime y m d h mi s 0) =
           Inr (MongoClient
             (if \<not> datetime_le (mk_datetime 2024 3 2 0 0 0 0) (mk_datetime y m d 0 0 0 0)
                then MONGO_ATLAS_URI_1
              else if datetime_le (mk_datetime y m d 0 0 0 0) (mk_datetime 2024 4 26 0 0 0 0)
                then MONGO_ATLAS_URI_2
              else MONGO_ATLAS_URI_3))"
    unfolding db_get_client_for_date_def scan_CLUSTERS w cluster1_uri
    using t y m d by (simp add: CLUSTERS_def dt_le_mk) arith
  have c: "map_sum id client (get_collection_for_date L d_str) =
           Inr (MongoClient
             (if \<not> datetime_le (mk_datetime 2024 3 2 0 0 0 0) (mk_datetime y m d 0 0 0 0)
                then MONGO_ATLAS_URI_1
              else if datetime_le (mk_datetime y m d 0 0 0 0) (mk_datetime 2024 4 26 0 0 0 0)
                then MONGO_ATLAS_URI_2
              else MONGO_ATLAS_URI_3))"
    using y m d
    by (simp add: get_collection_for_date_def q dt_le_mk articles1_def articles2_def articles3_def) arith
  have e: "mongo_get_client_for_date L ts_str = db_get_client_for_date (mk_datetime y m d h mi s 0)"
    by (simp add: mongo_get_client_for_date_def db_get_client_for_date_def p)
  show ?thesis using r c e by simp
qed

theorem selector_agrees_with_router_witness:
  "map_sum id client (get_collection_for_date example_lib ''2024-04-26'')
     = mongo_get_client_for_date example_lib ''2024-04-26T23:59:59Z''
   \<and> mongo_get_client_for_date example_lib ''2024-04-26T23:59:59Z''
     = db_get_client_for_date (mk_datetime 2024 4 26 23 59 59 0)
   \<and> db_get_client_for_date (mk_datetime 2024 4 26 23 59 59 0) = Inr (MongoClient MONGO_ATLAS_URI_2)"
proof -
  have q: "strptime example_lib ''2024-04-26'' ''%Y-%m-%d'' = Some (mk_datetime 2024 4 26 0 0 0 0)"
    by code_simp
  have p: "strptime example_lib ''2024-04-26T23:59:59Z'' ''%Y-%m-%dT%H:%M:%SZ''
             = Some (mk_datetime 2024 4 26 23 59 59 0)"
    by code_simp
  have tod: "second_resolution (mk_datetime 2024 4 26 23 59 59 0)"
    by (simp add: second_resolution_def mk_datetime_def)
  have lo: "datetime_le (mk_datetime 2024 1 1 0 0 0 0) (mk_datetime 2024 4 26 0 0 0 0)"
    and hi: "datetime_le (mk_datetime 2024 4 26 0 0 0 0) (mk_datetime 2024 6 30 0 0 0 0)"
    by (simp_all add: dt_le_mk)
  show ?thesis
    using selector_agrees_with_router [OF q p tod lo hi] by (simp add: dt_le_mk)
qed


section \<open>The record normalizer\<close>

lemma py_lower_field:
  "py_lower (dict_get_default a k (JStr [])) =
     (case field_text a k of None \<Rightarrow> Inl AttributeError | Some s \<Rightarrow> Inr (lower s))"
  by (simp add: py_lower_def dict_get_default_def field_text_def lower_def
           split: option.splits json.splits)

lemma sublist_map_iff: "sublist k (map f s) \<longleftrightarrow> (\<exists>p. sublist p s \<and> map f p = k)"
proof
  assume "sublist k (map f s)"
  then obtain ps ss where "map f s = ps @ k @ ss" by (auto simp: sublist_def)
  then obtain a bc where 1: "s = a @ bc" "map f bc = k @ ss"
    by (metis map_eq_append_conv)
  then obtain b c where 2: "bc = b @ c" "map f b = k"
    by (metis map_eq_append_conv)
  from 1 2 have "sublist b s" by (auto simp: sublist_def)
  with 2 show "\<exists>p. sublist p s \<and> map f p = k" by blast
next
  assume "\<exists>p. sublist p s \<and> map f p = k"
  then show "sublist k (map f s)" by (auto intro: map_mono_sublist)
qed

lemma lower_keyword: "k \<in> set KEYWORDS \<Longrightarrow> lower k = k"
  by (auto simp: KEYWORDS_def lower_def lower_char_def)

lemma keyword_ci: "k \<in> set KEYWORDS \<Longrightarrow> sublist k (lower s) \<longleftrightarrow> ci_substring k s"
  by (simp add: ci_substring_def lower_keyword) (simp add: lower_def sublist_map_iff)

lemma Nil_notin_KEYWORDS: "[] \<notin> set KEYWORDS"
  by (simp add: KEYWORDS_def)

lemma keyword_gate_ci:
  "list_ex (\<lambda>keyword. sublist keyword (lower t) \<or> sublist keyword (lower u)) KEYWORDS
     \<longleftrightarrow> (\<exists>k \<in> set KEYWORDS. ci_substring k t \<or> ci_substring k u)"
  by (auto simp: list_ex_iff keyword_ci)

lemma keyword_gate_nonempty:
  "\<exists>k \<in> set KEYWORDS. ci_substring k t \<or> ci_substring k u \<Longrightarrow> u \<noteq> [] \<or> t \<noteq> []"
  using Nil_notin_KEYWORDS by (auto simp: keyword_ci [symmetric] lower_def)

lemma encode_id_source:
  "field_text a ''title'' = Some t \<Longrightarrow> field_text a ''url'' = Some u \<Longrightarrow> u \<noteq> [] \<or> t \<noteq> [] \<Longrightarrow>
   py_encode (py_or (dict_get a ''url'') (py_or (dict_get a ''title'') (JStr s))) =
     (if has_surrogate (if u \<noteq> [] then u else t) then Inl UnicodeEncodeError
      else Inr (if u \<noteq> [] then u else t))"
  by (auto simp: field_text_def dict_get_def py_or_def py_encode_def
           split: option.splits json.splits)

lemma prepare_document_cases:
  "prepare_document L (JObj a) =
     (if dict_get a ''lang'' \<noteq> JStr ''ENGLISH'' then Inr None
      else
        (case (field_text a ''title'', field_text a ''url'') of
           (Some t, Some u) \<Rightarrow>
             if \<not> (\<exists>k \<in> set KEYWORDS. ci_substring k t \<or> ci_substring k u) then Inr None
             else if has_surrogate (if u \<noteq> [] then u else t) then Inl UnicodeEncodeError
             else Inr (Some
                    [(''_id'', JStr (md5_hexdigest L (if u \<noteq> [] then u else t))),
                     (''date'', dict_get a ''date''),
                     (''title'', dict_get a ''title''),
                     (''url'', dict_get a ''url''),
                     (''lang'', dict_get a ''lang''),
                     (''docembed'', dict_get_default a ''docembed'' (JArr []))])
         | _ \<Rightarrow> Inl AttributeError))"
proof (cases "dict_get a ''lang'' \<noteq> JStr ''ENGLISH''")
  case True
  then show ?thesis by (simp add: prepare_document_def)
next
  case lang: False
  show ?thesis
  proof (cases "field_text a ''title''")
    case None
    with lang show ?thesis by (simp add: prepare_document_def py_lower_field)
  next
    case t: (Some t)
    show ?thesis
    proof (cases "field_text a ''url''")
      case None
      with lang t show ?thesis by (simp add: prepare_document_def py_lower_field)
    next
      case u: (Some u)
      show ?thesis
      proof (cases "\<exists>k \<in> set KEYWORDS. ci_substring k t \<or> ci_substring k u")
        case False
        with lang t u show ?thesis
          by (simp add: prepare_document_def py_lower_field keyword_gate_ci)
      next
        case True
        from keyword_gate_nonempty [OF True] have ne: "u \<noteq> [] \<or> t \<noteq> []" .
        from True have g: "list_ex (\<lambda>keyword. sublist keyword (lower t) \<or> sublist keyword (lower u)) KEYWORDS"
          by (simp only: keyword_gate_ci)
        from lang t u True g show ?thesis
          by (simp add: prepare_document_def py_lower_field encode_id_source [OF t u ne])
      qed
    qed
  qed
qed

text \<open>
  Claim C7, as amended. A record whose language tag is not exactly \<^verbatim>\<open>"ENGLISH"\<close> is dropped,
  whatever its title and url. A record with that tag whose title and url are each a string
  or absent, and in which no keyword occurs as a case-insensitive substring of the title or
  of the url, is dropped. A document is produced only for a record that passes both gates.
  A record with that tag whose title or url is present and not a string (JSON \<^verbatim>\<open>null\<close>
  included) is not dropped: \<^verbatim>\<open>.lower()\<close> raises \<^verbatim>\<open>AttributeError\<close>, whatever the other field
  holds. A record that passes both gates yields a document, unless the text digested for
  its identity holds a lone surrogate, where \<^verbatim>\<open>.encode('utf-8')\<close> raises.
\<close>

theorem normalizer_gates:
  "(dict_get a ''lang'' \<noteq> JStr ''ENGLISH'' \<longrightarrow> prepare_document L (JObj a) = Inr None)
   \<and> (dict_get a ''lang'' = JStr ''ENGLISH''
        \<and> field_text a ''title'' = Some t \<and> field_text a ''url'' = Some u
        \<and> \<not> (\<exists>k \<in> set KEYWORDS. ci_substring k t \<or> ci_substring k u)
       \<longrightarrow> prepare_document L (JObj a) = Inr None)
   \<and> (prepare_document L (JObj a) = Inr (Some doc)
       \<longrightarrow> dict_get a ''lang'' = JStr ''ENGLISH''
          \<and> (\<exists>t u. field_text a ''title'' = Some t \<and> field_text a ''url'' = Some u
                \<and> (\<exists>k \<in> set KEYWORDS. ci_substring k t \<or> ci_substring k u)))
   \<and> (dict_get a ''lang'' = JStr ''ENGLISH''
        \<and> (field_text a ''title'' = None \<or> field_text a ''url'' = None)
       \<longrightarrow> prepare_document L (JObj a) = Inl AttributeError)
   \<and> (dict_get a ''lang'' = JStr ''ENGLISH''
        \<and> field_text a ''title'' = Some t \<and> field_text a ''url'' = Some u
        \<and> (\<exists>k \<in> set KEYWORDS. ci_substring k t \<or> ci_substring k u)
       \<longrightarrow> (if has_surrogate (if u \<noteq> [] then u else t)
            then prepare_document L (JObj a) = Inl UnicodeEncodeError
            else (\<exists>d. prepare_document L (JObj a) = Inr (Some d))))"
proof -
  note c = prepare_document_cases [of L a]
  have g1: "prepare_document L (JObj a) = Inr None" if "dict_get a ''lang'' \<noteq> JStr ''ENGLISH''"
    using that by (simp add: c)
  have g2: "prepare_document L (JObj a) = Inr None"
    if "dict_get a ''lang'' = JStr ''ENGLISH''
        \<and> field_text a ''title'' = Some t \<and> field_text a ''url'' = Some u
        \<and> \<not> (\<exists>k \<in> set KEYWORDS. ci_substring k t \<or> ci_substring k u)"
    using that by (simp add: c)
  have g3: "dict_get a ''lang'' = JStr ''ENGLISH''
          \<and> (\<exists>t u. field_text a ''title'' = Some t \<and> field_text a ''url'' = Some u
                \<and> (\<exists>k \<in> set KEYWORDS. ci_substring k t \<or> ci_substring k u))"
    if "prepare_document L (JObj a) = Inr (Some doc)"
    using that unfolding c by (auto split: if_splits option.splits)
  have g4: "prepare_document L (JObj a) = Inl AttributeError"
    if "dict_get a ''lang'' = JStr ''ENGLISH''
        \<and> (field_text a ''title'' = None \<or> field_text a ''url'' = None)"
    using that by (auto simp: c split: option.splits)
  have g5: "if has_surrogate (if u \<noteq> [] then u else t)
            then prepare_document L (JObj a) = Inl UnicodeEncodeError
            else (\<exists>d. prepare_document L (JObj a) = Inr (Some d))"
    if "dict_get a ''lang'' = JStr ''ENGLISH''
        \<and> field_text a ''title'' = Some t \<and> field_text a ''url'' = Some u
        \<and> (\<exists>k \<in> set KEYWORDS. ci_substring k t \<or> ci_substring k u)"
    using that by (simp add: c)
  from g1 g2 g3 g4 g5 show ?thesis by blast
qed

theorem normalizer_gates_witness:
  "(\<forall>L. prepare_document L
          (JObj [(''lang'', JStr ''english''), (''title'', JStr ''Tesla recalls''),
                 (''url'', JStr ''http://a/tesla'')]) = Inr None)
   \<and> (\<forall>L. prepare_document L
          (JObj [(''lang'', JStr ''ENGLISH''), (''title'', JStr ''Rain on Monday''),
                 (''url'', JStr ''http://a/weather'')]) = Inr None)
   \<and> ci_substring ''tesla'' ''TESLA recalls''
   \<and> (\<forall>L. \<exists>doc. prepare_document L
          (JObj [(''lang'', JStr ''ENGLISH''), (''title'', JStr ''TESLA recalls''),
                 (''url'', JStr ''http://a/cars'')]) = Inr (Some doc))
   \<and> (\<forall>L. prepare_document L
          (JObj [(''lang'', JStr ''ENGLISH''), (''title'', JInt 7),
                 (''url'', JStr ''http://a/tesla'')]) = Inl AttributeError)"
proof -
  let ?a = "[(''lang'', JStr ''english''), (''title'', JStr ''Tesla recalls''),
             (''url'', JStr ''http://a/tesla'')]"
  let ?b = "[(''lang'', JStr ''ENGLISH''), (''title'', JStr ''Rain on Monday''),
             (''url'', JStr ''http://a/weather'')]"
  let ?c = "[(''lang'', JStr ''ENGLISH''), (''title'', JStr ''TESLA recalls''),
             (''url'', JStr ''http://a/cars'')]"
  let ?d = "[(''lang'', JStr ''ENGLISH''), (''title'', JInt 7),
             (''url'', JStr ''http://a/tesla'')]"
  have la: "dict_get ?a ''lang'' \<noteq> JStr ''ENGLISH''"
    by (simp add: dict_get_def)
  have nb: "\<not> (\<exists>k \<in> set KEYWORDS. sublist k (lower ''Rain on Monday'')
                 \<or> sublist k (lower ''http://a/weather''))"
    by code_simp
  have hb: "dict_get ?b ''lang'' = JStr ''ENGLISH''
        \<and> field_text ?b ''title'' = Some ''Rain on Monday''
        \<and> field_text ?b ''url'' = Some ''http://a/weather''
        \<and> \<not> (\<exists>k \<in> set KEYWORDS. ci_substring k ''Rain on Monday''
                 \<or> ci_substring k ''http://a/weather'')"
    using nb by (simp add: dict_get_def field_text_def keyword_ci)
  have 1: "prepare_document L (JObj ?a) = Inr None" for L
    using normalizer_gates [of ?a L, THEN conjunct1, THEN mp, OF la] .
  have 2: "prepare_document L (JObj ?b) = Inr None" for L
    using normalizer_gates [of ?b L, THEN conjunct2, THEN conjunct1, THEN mp, OF hb] .
  have s: "sublist ''tesla'' (lower ''TESLA recalls'')"
    by code_simp
  then have 3: "ci_substring ''tesla'' ''TESLA recalls''"
    by (simp add: keyword_ci KEYWORDS_def)
  have ns: "\<not> has_surrogate ''http://a/cars''"
    by code_simp
  have hc: "dict_get ?c ''lang'' = JStr ''ENGLISH''
        \<and> field_text ?c ''title'' = Some ''TESLA recalls''
        \<and> field_text ?c ''url'' = Some ''http://a/cars''
        \<and> (\<exists>k \<in> set KEYWORDS. ci_substring k ''TESLA recalls'' \<or> ci_substring k ''http://a/cars'')"
    using 3 by (auto simp: dict_get_def field_text_def KEYWORDS_def)
  have 4: "\<exists>doc. prepare_document L (JObj ?c) = Inr (Some doc)" for L
    using normalizer_gates
            [of ?c L "''TESLA recalls''" "''http://a/cars''",
             THEN conjunct2, THEN conjunct2, THEN conjunct2, THEN conjunct2, THEN mp, OF hc]
          ns
    by simp
  have hd: "dict_get ?d ''lang'' = JStr ''ENGLISH''
        \<and> (field_text ?d ''title'' = None \<or> field_text ?d ''url'' = None)"
    by (simp add: dict_get_def field_text_def)
  have 5: "prepare_document L (JObj ?d) = Inl AttributeError" for L
    using normalizer_gates
            [of ?d L, THEN conjunct2, THEN conjunct2, THEN conjunct2, THEN conjunct1, THEN mp, OF hd] .
  from 1 2 3 4 5 show ?thesis by blast
qed

text \<open>
  The claim as stated, for every record, fails on a record of the expected language whose
  title is JSON \<^verbatim>\<open>null\<close> and in whose url no keyword occurs: it is not dropped, the batch
  writer raises.
\<close>

lemma no_keyword_in_weather:
  "\<not> sublist ''tesla'' (lower ''http://a/weather'') \<and> \<not> sublist ''apple'' (lower ''http://a/weather'')
   \<and> \<not> sublist ''google'' (lower ''http://a/weather'') \<and> \<not> sublist ''nvidia'' (lower ''http://a/weather'')
   \<and> \<not> sublist ''microsoft'' (lower ''http://a/weather'')"
  by code_simp

theorem null_title_not_dropped_counterexample:
  "dict_get [(''lang'', JStr ''ENGLISH''), (''title'', JNull), (''url'', JStr ''http://a/weather'')]
       ''lang'' = JStr ''ENGLISH''
   \<and> KEYWORDS = [''tesla'', ''apple'', ''google'', ''nvidia'', ''microsoft'']
   \<and> \<not> ci_substring ''tesla'' ''http://a/weather''
   \<and> \<not> ci_substring ''apple'' ''http://a/weather''
   \<and> \<not> ci_substring ''google'' ''http://a/weather''
   \<and> \<not> ci_substring ''nvidia'' ''http://a/weather''
   \<and> \<not> ci_substring ''microsoft'' ''http://a/weather''
   \<and> prepare_document example_lib
        (JObj [(''lang'', JStr ''ENGLISH''), (''title'', JNull), (''url'', JStr ''http://a/weather'')])
      = Inl AttributeError
   \<and> prepare_document example_lib
        (JObj [(''lang'', JStr ''ENGLISH''), (''title'', JNull), (''url'', JStr ''http://a/weather'')])
      \<noteq> Inr None"
proof -
  have k: "\<not> ci_substring k ''http://a/weather''" if "k \<in> set KEYWORDS" for k
    using that no_keyword_in_weather by (auto simp: keyword_ci [symmetric]) (auto simp: KEYWORDS_def)
  have p: "prepare_document example_lib
        (JObj [(''lang'', JStr ''ENGLISH''), (''title'', JNull), (''url'', JStr ''http://a/weather'')])
      = Inl AttributeError"
    by (simp add: prepare_document_def dict_get_def dict_get_default_def py_lower_def)
  show ?thesis
    using k [of "''tesla''"] k [of "''apple''"] k [of "''google''"] k [of "''nvidia''"]
          k [of "''microsoft''"] p
    by (simp add: KEYWORDS_def dict_get_def)
qed

text \<open>
  Claim C8, as amended. Normalizing a record completes, with a document or with the record
  filtered out, exactly when its language tag is not the expected one, or its title and
  its url are each absent or a string and, if a keyword occurs in them, the text digested
  for the identity (the url, or the title when the url is empty or absent) holds no lone
  surrogate. So no absent field raises: a record with neither title nor url is filtered
  out, and the embedding field of the document is the record's, the empty list when the
  record has none. A title or url that is present and not a string makes a record of the
  expected language raise, also where another of these fields is absent.
\<close>

theorem normalizer_completes_on_missing_fields:
  "((\<exists>r. prepare_document L (JObj a) = Inr r) \<longleftrightarrow>
      (dict_get a ''lang'' \<noteq> JStr ''ENGLISH''
       \<or> (\<exists>t u. field_text a ''title'' = Some t \<and> field_text a ''url'' = Some u
             \<and> \<not> ((\<exists>k \<in> set KEYWORDS. ci_substring k t \<or> ci_substring k u)
                   \<and> has_surrogate (if u \<noteq> [] then u else t)))))
   \<and> (map_of a ''title'' = None \<and> map_of a ''url'' = None
       \<longrightarrow> prepare_document L (JObj a) = Inr None)
   \<and> (prepare_document L (JObj a) = Inr (Some doc)
       \<longrightarrow> map_of doc ''docembed'' =
             Some (case map_of a ''docembed'' of None \<Rightarrow> JArr [] | Some v \<Rightarrow> v))"
proof -
  note c = prepare_document_cases [of L a]
  have g1: "(\<exists>r. prepare_document L (JObj a) = Inr r) \<longleftrightarrow>
      (dict_get a ''lang'' \<noteq> JStr ''ENGLISH''
       \<or> (\<exists>t u. field_text a ''title'' = Some t \<and> field_text a ''url'' = Some u
             \<and> \<not> ((\<exists>k \<in> set KEYWORDS. ci_substring k t \<or> ci_substring k u)
                   \<and> has_surrogate (if u \<noteq> [] then u else t))))"
    unfolding c by (auto split: option.splits)
  have g2: "prepare_document L (JObj a) = Inr None"
    if "map_of a ''title'' = None \<and> map_of a ''url'' = None"
  proof -
    from that have f: "field_text a ''title'' = Some []" "field_text a ''url'' = Some []"
      by (simp_all add: field_text_def)
    have "\<not> (\<exists>k \<in> set KEYWORDS. ci_substring k [] \<or> ci_substring k [])"
      using keyword_gate_nonempty [of "[]" "[]"] by blast
    with f show ?thesis by (simp add: c)
  qed
  have g3: "map_of doc ''docembed'' =
             Some (case map_of a ''docembed'' of None \<Rightarrow> JArr [] | Some v \<Rightarrow> v)"
    if "prepare_document L (JObj a) = Inr (Some doc)"
    using that unfolding c
    by (auto simp: dict_get_default_def split: if_splits option.splits)
  from g1 g2 g3 show ?thesis by blast
qed

theorem normalizer_completes_on_missing_fields_witness:
  "(\<forall>L. \<exists>r. prepare_document L (JObj [(''lang'', JStr ''ENGLISH''), (''title'', JStr ''Apple'')])
              = Inr r)
   \<and> (\<forall>L. \<not> (\<exists>r. prepare_document L (JObj [(''lang'', JStr ''ENGLISH''), (''url'', JNull)]) = Inr r))
   \<and> (\<forall>L. prepare_document L (JObj [(''lang'', JStr ''ENGLISH'')]) = Inr None)
   \<and> (\<forall>L. \<exists>doc. prepare_document L (JObj [(''lang'', JStr ''ENGLISH''), (''title'', JStr ''Apple'')])
                 = Inr (Some doc)
              \<and> map_of doc ''docembed'' = Some (JArr []))"
proof -
  let ?a = "[(''lang'', JStr ''ENGLISH''), (''title'', JStr ''Apple'')]"
  let ?b = "[(''lang'', JStr ''ENGLISH'')]"
  let ?n = "[(''lang'', JStr ''ENGLISH''), (''url'', JNull)]"
  have ns: "\<not> has_surrogate ''Apple''"
    by code_simp
  have ha: "dict_get ?a ''lang'' \<noteq> JStr ''ENGLISH''
       \<or> (\<exists>t u. field_text ?a ''title'' = Some t \<and> field_text ?a ''url'' = Some u
             \<and> \<not> ((\<exists>k \<in> set KEYWORDS. ci_substring k t \<or> ci_substring k u)
                   \<and> has_surrogate (if u \<noteq> [] then u else t)))"
    using ns by (simp add: field_text_def)
  have hn: "\<not> (dict_get ?n ''lang'' \<noteq> JStr ''ENGLISH''
       \<or> (\<exists>t u. field_text ?n ''title'' = Some t \<and> field_text ?n ''url'' = Some u
             \<and> \<not> ((\<exists>k \<in> set KEYWORDS. ci_substring k t \<or> ci_substring k u)
                   \<and> has_surrogate (if u \<noteq> [] then u else t))))"
    by (simp add: field_text_def dict_get_def)
  have hb: "map_of ?b ''title'' = None \<and> map_of ?b ''url'' = None"
    by simp
  have 1: "\<exists>r. prepare_document L (JObj ?a) = Inr r" for L
    using normalizer_completes_on_missing_fields [of L ?a, THEN conjunct1, THEN iffD2, OF ha] .
  have 2: "\<not> (\<exists>r. prepare_document L (JObj ?n) = Inr r)" for L
    using normalizer_completes_on_missing_fields [of L ?n, THEN conjunct1] hn by blast
  have 3: "prepare_document L (JObj ?b) = Inr None" for L
    using normalizer_completes_on_missing_fields
            [of L ?b, THEN conjunct2, THEN conjunct1, THEN mp, OF hb] .
  have 4: "\<exists>doc. prepare_document L (JObj ?a) = Inr (Some doc)
              \<and> map_of doc ''docembed'' = Some (JArr [])" for L
  proof -
    have "\<exists>doc. prepare_document L (JObj ?a) = Inr (Some doc)"
      by (simp add: prepare_document_def dict_get_def dict_get_default_def py_lower_def
            py_or_def py_encode_def)
         code_simp
    then obtain doc where d: "prepare_document L (JObj ?a) = Inr (Some doc)" ..
    from normalizer_completes_on_missing_fields
           [of L ?a doc, THEN conjunct2, THEN conjunct2, THEN mp, OF d]
    have "map_of doc ''docembed'' = Some (JArr [])" by simp
    with d show ?thesis by blast
  qed
  from 1 2 3 4 show ?thesis by blast
qed

text \<open>
  The claim as stated, for every record lacking the url or the embedding field, fails on a
  record of the expected language that has neither and whose title is JSON \<^verbatim>\<open>null\<close>
  (\<^verbatim>\<open>.lower()\<close> raises), and on one whose title holds a keyword and the lone surrogate
  U+D83D (\<^verbatim>\<open>.encode('utf-8')\<close> raises).
\<close>

theorem missing_url_null_title_raises_counterexample:
  "map_of [(''lang'', JStr ''ENGLISH''), (''title'', JNull)] ''url'' = None
   \<and> map_of [(''lang'', JStr ''ENGLISH''), (''title'', JNull)] ''docembed'' = None
   \<and> prepare_document example_lib (JObj [(''lang'', JStr ''ENGLISH''), (''title'', JNull)])
      = Inl AttributeError
   \<and> map_of [(''lang'', JStr ''ENGLISH''),
             (''title'', JStr (''tesla '' @ [CHR 0xED, CHR 0xA0, CHR 0xBD]))]
        ''url'' = None
   \<and> prepare_document example_lib
        (JObj [(''lang'', JStr ''ENGLISH''),
               (''title'', JStr (''tesla '' @ [CHR 0xED, CHR 0xA0, CHR 0xBD]))])
      = Inl UnicodeEncodeError"
proof -
  have 1: "prepare_document example_lib (JObj [(''lang'', JStr ''ENGLISH''), (''title'', JNull)])
      = Inl AttributeError"
    by (simp add: prepare_document_def dict_get_def dict_get_default_def py_lower_def)
  have 2: "prepare_document example_lib
        (JObj [(''lang'', JStr ''ENGLISH''),
               (''title'', JStr (''tesla '' @ [CHR 0xED, CHR 0xA0, CHR 0xBD]))])
      = Inl UnicodeEncodeError"
    by code_simp
  from 1 2 show ?thesis by simp
qed

lemma prepare_document_id:
  assumes "prepare_document L (JObj a) = Inr (Some doc)"
  shows "\<exists>t u. field_text a ''title'' = Some t \<and> field_text a ''url'' = Some u
           \<and> (u \<noteq> [] \<or> t \<noteq> [])
           \<and> map_of doc ''_id'' = Some (JStr (md5_hexdigest L (if u \<noteq> [] then u else t)))"
proof -
  from assms obtain t u where tu: "field_text a ''title'' = Some t" "field_text a ''url'' = Some u"
    and k: "\<exists>k \<in> set KEYWORDS. ci_substring k t \<or> ci_substring k u"
    unfolding prepare_document_cases by (auto split: if_splits option.splits)
  from assms tu k have "map_of doc ''_id'' = Some (JStr (md5_hexdigest L (if u \<noteq> [] then u else t)))"
    unfolding prepare_document_cases by (auto split: if_splits)
  with tu keyword_gate_nonempty [OF k] show ?thesis by blast
qed

text \<open>
  Claim C2, as amended. The identity \<^verbatim>\<open>_id\<close> of a document is the MD5 digest of the
  record's url when the url is a non-empty string, and of its title when the url is
  absent or empty (the title is then a non-empty string, for a keyword occurs in it); the
  serialized record is never what is digested. So two records with the same non-empty url
  get the same \<^verbatim>\<open>_id\<close>, and normalizing a record again gives the same \<^verbatim>\<open>_id\<close>.
\<close>

theorem document_id_from_url_or_title:
  "(prepare_document L (JObj a) = Inr (Some doc) \<and> map_of a ''url'' = Some (JStr u) \<and> u \<noteq> []
       \<longrightarrow> map_of doc ''_id'' = Some (JStr (md5_hexdigest L u)))
   \<and> (prepare_document L (JObj a) = Inr (Some doc)
        \<and> (map_of a ''url'' = None \<or> map_of a ''url'' = Some (JStr []))
       \<longrightarrow> (\<exists>t. map_of a ''title'' = Some (JStr t) \<and> t \<noteq> []
               \<and> map_of doc ''_id'' = Some (JStr (md5_hexdigest L t))))
   \<and> (prepare_document L (JObj a) = Inr (Some doc) \<and> prepare_document L (JObj b) = Inr (Some doc')
        \<and> map_of a ''url'' = Some (JStr u) \<and> map_of b ''url'' = Some (JStr u) \<and> u \<noteq> []
       \<longrightarrow> map_of doc ''_id'' = map_of doc' ''_id'')"
proof -
  have g1: "map_of d ''_id'' = Some (JStr (md5_hexdigest L u))"
    if "prepare_document L (JObj r) = Inr (Some d) \<and> map_of r ''url'' = Some (JStr u) \<and> u \<noteq> []"
    for r d
    using prepare_document_id [of L r d] that by (auto simp: field_text_def)
  have g2: "\<exists>t. map_of a ''title'' = Some (JStr t) \<and> t \<noteq> []
               \<and> map_of doc ''_id'' = Some (JStr (md5_hexdigest L t))"
    if "prepare_document L (JObj a) = Inr (Some doc)
        \<and> (map_of a ''url'' = None \<or> map_of a ''url'' = Some (JStr []))"
    using prepare_document_id [of L a doc] that
    by (auto simp: field_text_def split: option.splits json.splits)
  from g1 [of a doc] g1 [of b doc'] g2 show ?thesis by auto
qed

theorem document_id_from_url_or_title_witness:
  "\<forall>L. \<exists>doc doc'.
      prepare_document L
        (JObj [(''lang'', JStr ''ENGLISH''), (''title'', JStr ''Tesla recalls''),
               (''url'', JStr ''http://a/1'')]) = Inr (Some doc)
    \<and> prepare_document L
        (JObj [(''lang'', JStr ''ENGLISH''), (''title'', JStr ''Apple event''),
               (''url'', JStr ''http://a/1'')]) = Inr (Some doc')
    \<and> map_of doc ''_id'' = Some (JStr (md5_hexdigest L ''http://a/1''))
    \<and> map_of doc ''_id'' = map_of doc' ''_id''"
proof
  fix L
  let ?a = "[(''lang'', JStr ''ENGLISH''), (''title'', JStr ''Tesla recalls''),
             (''url'', JStr ''http://a/1'')]"
  let ?b = "[(''lang'', JStr ''ENGLISH''), (''title'', JStr ''Apple event''),
             (''url'', JStr ''http://a/1'')]"
  have "\<exists>doc. prepare_document L (JObj ?a) = Inr (Some doc)"
    by (simp add: prepare_document_def dict_get_def dict_get_default_def py_lower_def
          py_or_def py_encode_def)
       code_simp
  then obtain doc where a: "prepare_document L (JObj ?a) = Inr (Some doc)" ..
  have "\<exists>doc. prepare_document L (JObj ?b) = Inr (Some doc)"
    by (simp add: prepare_document_def dict_get_def dict_get_default_def py_lower_def
          py_or_def py_encode_def)
       code_simp
  then obtain doc' where b: "prepare_document L (JObj ?b) = Inr (Some doc')" ..
  have u: "map_of ?a ''url'' = Some (JStr ''http://a/1'')" "map_of ?b ''url'' = Some (JStr ''http://a/1'')"
      "''http://a/1'' \<noteq> []"
    by simp_all
  have 1: "map_of doc ''_id'' = Some (JStr (md5_hexdigest L ''http://a/1''))"
    using document_id_from_url_or_title [of L ?a doc "''http://a/1''", THEN conjunct1] a u by simp
  have 2: "map_of doc ''_id'' = map_of doc' ''_id''"
    using document_id_from_url_or_title
            [of L ?a doc "''http://a/1''" ?b doc', THEN conjunct2, THEN conjunct2] a b u
    by simp
  from a b 1 2
  show "\<exists>doc doc'. prepare_document L (JObj ?a) = Inr (Some doc)
          \<and> prepare_document L (JObj ?b) = Inr (Some doc')
          \<and> map_of doc ''_id'' = Some (JStr (md5_hexdigest L ''http://a/1''))
          \<and> map_of doc ''_id'' = map_of doc' ''_id''"
    by blast
qed

text \<open>
  The claim as stated, for every two records with the same url, fails on two records
  whose url is the empty string: the digest is then taken of the titles (MD5 as
  \<^verbatim>\<open>hashlib\<close> computes it; the first lemma is a test vector of RFC 1321).
\<close>

lemma md5_hex_abc: "md5_hex ''abc'' = ''900150983cd24fb0d6963f7d28e17f72''"
  by code_simp

lemma md5_hex_tesla_a: "md5_hex ''tesla a'' = ''e5a28d218517b3a357fbea590968465f''"
  by code_simp

lemma md5_hex_tesla_b: "md5_hex ''tesla b'' = ''75c4d7027e0d8f6fa57f8855f8cb29ce''"
  by code_simp

lemma prepare_document_empty_url:
  "sublist ''tesla'' (lower t) \<Longrightarrow> t \<noteq> [] \<Longrightarrow> \<not> has_surrogate t \<Longrightarrow>
   prepare_document example_lib
      (JObj [(''lang'', JStr ''ENGLISH''), (''title'', JStr t), (''url'', JStr [])])
    = Inr (Some [(''_id'', JStr (md5_hex t)), (''date'', JNull), (''title'', JStr t),
                 (''url'', JStr []), (''lang'', JStr ''ENGLISH''), (''docembed'', JArr [])])"
  by (simp add: prepare_document_def dict_get_def dict_get_default_def py_lower_def
        py_or_def py_encode_def KEYWORDS_def example_lib_def)

theorem same_url_different_id_counterexample:
  "map_of [(''lang'', JStr ''ENGLISH''), (''title'', JStr ''tesla a''), (''url'', JStr [])] ''url''
     = map_of [(''lang'', JStr ''ENGLISH''), (''title'', JStr ''tesla b''), (''url'', JStr [])] ''url''
   \<and> prepare_document example_lib
        (JObj [(''lang'', JStr ''ENGLISH''), (''title'', JStr ''tesla a''), (''url'', JStr [])])
      = Inr (Some [(''_id'', JStr ''e5a28d218517b3a357fbea590968465f''), (''date'', JNull),
                   (''title'', JStr ''tesla a''), (''url'', JStr []),
                   (''lang'', JStr ''ENGLISH''), (''docembed'', JArr [])])
   \<and> prepare_document example_lib
        (JObj [(''lang'', JStr ''ENGLISH''), (''title'', JStr ''tesla b''), (''url'', JStr [])])
      = Inr (Some [(''_id'', JStr ''75c4d7027e0d8f6fa57f8855f8cb29ce''), (''date'', JNull),
                   (''title'', JStr ''tesla b''), (''url'', JStr []),
                   (''lang'', JStr ''ENGLISH''), (''docembed'', JArr [])])
   \<and> ''e5a28d218517b3a357fbea590968465f'' \<noteq> ''75c4d7027e0d8f6fa57f8855f8cb29ce''"
proof -
  have a: "sublist ''tesla'' (lower ''tesla a'')" and b: "sublist ''tesla'' (lower ''tesla b'')"
    by code_simp+
  have sa: "\<not> has_surrogate ''tesla a''" and sb: "\<not> has_surrogate ''tesla b''"
    by code_simp+
  have na: "''tesla a'' \<noteq> []" and nb: "''tesla b'' \<noteq> []"
    by simp_all
  show ?thesis
    using prepare_document_empty_url [OF a na sa] prepare_document_empty_url [OF b nb sb]
    by (simp add: md5_hex_tesla_a md5_hex_tesla_b)
qed

section \<open>The batch writer\<close>

lemma retry_loop_3:
  "retry_loop L S documents 3 i d w = retry_loop L S documents (Suc (Suc (Suc 0))) i d w"
  by (simp add: numeral_3_eq_3)

lemma bulk_insert_counts:
  "distinct (map (\<lambda>d. dict_get d ''_id'') docs) \<Longrightarrow>
   bulk_insert held_ids docs i = (h, n, errs) \<Longrightarrow>
   n = length (filter (\<lambda>d. dict_get d ''_id'' \<notin> set held_ids) docs)
   \<and> length errs = length (filter (\<lambda>d. dict_get d ''_id'' \<in> set held_ids) docs)
   \<and> (\<forall>e \<in> set errs. code e = 11000)"
proof (induction docs arbitrary: held_ids i h n errs)
  case Nil
  then show ?case by simp
next
  case (Cons doc docs)
  let ?id = "dict_get doc ''_id''"
  from Cons.prems(1) have dist: "distinct (map (\<lambda>d. dict_get d ''_id'') docs)"
    and fresh: "\<forall>d \<in> set docs. dict_get d ''_id'' \<noteq> ?id"
    by (auto simp: image_iff)
  show ?case
  proof (cases "?id \<in> set held_ids")
    case True
    with Cons.prems obtain errs' where
      r: "bulk_insert held_ids docs (Suc i) = (h, n, errs')" and e: "errs = \<lparr>index = i, code = 11000\<rparr> # errs'"
      by (auto split: prod.splits)
    from Cons.IH [OF dist r] True e show ?thesis by simp
  next
    case False
    with Cons.prems obtain n' where
      r: "bulk_insert (held_ids @ [?id]) docs (Suc i) = (h, n', errs)" and n: "n = Suc n'"
      by (auto split: prod.splits)
    have same: "filter (\<lambda>d. dict_get d ''_id'' \<in> set (held_ids @ [?id])) docs
              = filter (\<lambda>d. dict_get d ''_id'' \<in> set held_ids) docs"
       "filter (\<lambda>d. dict_get d ''_id'' \<notin> set (held_ids @ [?id])) docs
              = filter (\<lambda>d. dict_get d ''_id'' \<notin> set held_ids) docs"
      using fresh by (auto intro: filter_cong)
    from Cons.IH [OF dist r] False n same show ?thesis by simp
  qed
qed


lemma insert_articles_flush:
  assumes "prepare_loop L articles [] = Inr documents" "documents \<noteq> []"
  shows "insert_articles L S articles w =
     (case retry_loop L S documents (Suc (Suc (Suc 0))) 0 0 w of
        (Inl e, w') \<Rightarrow> (Inl e, w')
      | (Inr (retries, inserted_count, duplicate_count), w') \<Rightarrow>
          (Inr (inserted_count, duplicate_count),
           if retries = 0 then emit PrintAllRetriesFailed w' else w'))"
  using assms by (simp add: insert_articles_def retry_loop_3)

lemma md5_hex_url1: "md5_hex ''http://a/1'' = ''f9b968e7dbf1f88ba0cf909900bebfd6''"
  by code_simp

lemma md5_hex_url2: "md5_hex ''http://a/2'' = ''1bba7108e99a7e1ef9aaf470a0da81d6''"
  by code_simp

lemma prepare_example_article:
  "sublist ''tesla'' (lower t) \<Longrightarrow> u \<noteq> [] \<Longrightarrow> \<not> has_surrogate u \<Longrightarrow>
   prepare_document L (example_article t u) = Inr (Some (example_document (md5_hexdigest L u) t u))"
  by (simp add: prepare_document_def dict_get_def dict_get_default_def py_lower_def
        py_or_def py_encode_def KEYWORDS_def example_article_def example_document_def)

lemma example_batch:
  "prepare_loop example_lib
     [example_article ''Tesla recalls'' ''http://a/1'', example_article ''Tesla gains'' ''http://a/2''] []
   = Inr [example_document ''f9b968e7dbf1f88ba0cf909900bebfd6'' ''Tesla recalls'' ''http://a/1'',
          example_document ''1bba7108e99a7e1ef9aaf470a0da81d6'' ''Tesla gains'' ''http://a/2'']"
proof -
  have a: "sublist ''tesla'' (lower ''Tesla recalls'')" and b: "sublist ''tesla'' (lower ''Tesla gains'')"
    by code_simp+
  have m: "md5_hexdigest example_lib = md5_hex"
    by (simp add: example_lib_def)
  have s: "\<not> has_surrogate ''http://a/1''" "\<not> has_surrogate ''http://a/2''"
    by code_simp+
  show ?thesis
    by (simp add: prepare_example_article [OF a _ s(1)] prepare_example_article [OF b _ s(2)] m
          md5_hex_url1 md5_hex_url2)
qed

lemma example_client:
  "client_for_first example_lib (example_document i t u # ds) = Inr (MongoClient MONGO_ATLAS_URI_1)"
proof -
  have "mongo_get_client_for_date example_lib ''2024-01-05T10:00:00Z'' = Inr (MongoClient MONGO_ATLAS_URI_1)"
    by code_simp
  then show ?thesis
    by (simp add: client_for_first_def example_document_def)
qed

lemma example_insert_two:
  "store_insert_many (example_state0\<lparr>held := (\<lambda>u. [])\<rparr>) MONGO_ATLAS_URI_1
     [example_document ''f9b968e7dbf1f88ba0cf909900bebfd6'' ''Tesla recalls'' ''http://a/1'',
      example_document ''1bba7108e99a7e1ef9aaf470a0da81d6'' ''Tesla gains'' ''http://a/2'']
   = (InsertManyResult [JStr ''f9b968e7dbf1f88ba0cf909900bebfd6'', JStr ''1bba7108e99a7e1ef9aaf470a0da81d6''],
      example_state0\<lparr>held := (\<lambda>u. [])(MONGO_ATLAS_URI_1 :=
         [JStr ''f9b968e7dbf1f88ba0cf909900bebfd6'', JStr ''1bba7108e99a7e1ef9aaf470a0da81d6''])\<rparr>)"
  by (simp add: store_insert_many_def example_state0_def example_document_def dict_get_def)

text \<open>
  Claim C4, as amended. Per flush, the documents the bulk insert accepted are counted as
  inserted, and every write error of a \<^verbatim>\<open>BulkWriteError\<close> is counted as a duplicate,
  whatever its error code: the code does not tell a duplicate key from another rejection
  of a document. A failure of the whole operation is told apart: a server selection
  timeout is retried, any other exception leaves \<^verbatim>\<open>insert_articles\<close>. Against a store that
  rejects only duplicate keys, a flushed batch of \<open>n\<close> documents with distinct identities,
  \<open>k\<close> of them held already, returns \<open>inserted = n - k\<close> and \<open>duplicate = k\<close>.
\<close>

theorem flush_counts_write_errors:
  assumes "prepare_loop L articles [] = Inr documents" "documents \<noteq> []"
    and "client_for_first L documents = Inr (MongoClient u)"
  shows "(insert_many S (mongo w) u documents = (InsertManyResult inserted_ids, s)
            \<longrightarrow> fst (insert_articles L S articles w) = Inr (length inserted_ids, 0))
       \<and> (insert_many S (mongo w) u documents = (BulkWriteError nInserted writeErrors, s)
            \<longrightarrow> fst (insert_articles L S articles w) = Inr (nInserted, length writeErrors))
       \<and> (insert_many S (mongo w) u documents = (OtherInsertError, s)
            \<longrightarrow> fst (insert_articles L S articles w) = Inl PyMongoError)
       \<and> (insert_many S = store_insert_many \<and> timeouts (mongo w) = 0
           \<and> distinct (map (\<lambda>d. dict_get d ''_id'') documents)
           \<and> k = length (filter (\<lambda>d. dict_get d ''_id'' \<in> set (held (mongo w) u)) documents)
            \<longrightarrow> fst (insert_articles L S articles w) = Inr (length documents - k, k))"
proof -
  note f = insert_articles_flush [OF assms(1,2)]
  have g1: "fst (insert_articles L S articles w) = Inr (length inserted_ids, 0)"
    if "insert_many S (mongo w) u documents = (InsertManyResult inserted_ids, s)"
    using that assms(3) by (simp add: f)
  have g2: "fst (insert_articles L S articles w) = Inr (nInserted, length writeErrors)"
    if "insert_many S (mongo w) u documents = (BulkWriteError nInserted writeErrors, s)"
    using that assms(3) by (simp add: f)
  have g3: "fst (insert_articles L S articles w) = Inl PyMongoError"
    if "insert_many S (mongo w) u documents = (OtherInsertError, s)"
    using that assms(3) by (simp add: f)
  have g4: "fst (insert_articles L S articles w) = Inr (length documents - k, k)"
    if h: "insert_many S = store_insert_many \<and> timeouts (mongo w) = 0
           \<and> distinct (map (\<lambda>d. dict_get d ''_id'') documents)
           \<and> k = length (filter (\<lambda>d. dict_get d ''_id'' \<in> set (held (mongo w) u)) documents)"
  proof -
    obtain hh n errs where b: "bulk_insert (held (mongo w) u) documents 0 = (hh, n, errs)"
      by (cases "bulk_insert (held (mongo w) u) documents 0") auto
    from h b have c: "n = length (filter (\<lambda>d. dict_get d ''_id'' \<notin> set (held (mongo w) u)) documents)"
      "length errs = length (filter (\<lambda>d. dict_get d ''_id'' \<in> set (held (mongo w) u)) documents)"
      using bulk_insert_counts [of documents "held (mongo w) u" 0 hh n errs] by auto
    have l: "length documents = n + length errs"
      unfolding c by (rule sum_length_filter_compl [symmetric, THEN trans]) (simp add: add.commute)
    show ?thesis
    proof (cases "errs = []")
      case True
      with h b assms(3) c l show ?thesis
        by (simp add: f store_insert_many_def)
    next
      case False
      with h b assms(3) c l show ?thesis
        by (simp add: f store_insert_many_def)
    qed
  qed
  from g1 g2 g3 g4 show ?thesis by blast
qed



theorem flush_counts_write_errors_witness:
  "fst (insert_articles example_lib (example_services [])
          [example_article ''Tesla recalls'' ''http://a/1'', example_article ''Tesla gains'' ''http://a/2'']
          \<lparr>mongo = example_state0, trace = []\<rparr>) = Inr (2, 0)
   \<and> fst (insert_articles example_lib (example_services [])
          [example_article ''Tesla recalls'' ''http://a/1'', example_article ''Tesla gains'' ''http://a/2'']
          \<lparr>mongo = example_state0\<lparr>held := (\<lambda>u. [JStr ''f9b968e7dbf1f88ba0cf909900bebfd6''])\<rparr>,
           trace = []\<rparr>) = Inr (1, 1)"
proof -
  let ?arts = "[example_article ''Tesla recalls'' ''http://a/1'', example_article ''Tesla gains'' ''http://a/2'']"
  let ?docs = "[example_document ''f9b968e7dbf1f88ba0cf909900bebfd6'' ''Tesla recalls'' ''http://a/1'',
                example_document ''1bba7108e99a7e1ef9aaf470a0da81d6'' ''Tesla gains'' ''http://a/2'']"
  let ?S = "example_services [] :: store_state services"
  let ?w0 = "\<lparr>mongo = example_state0, trace = []\<rparr>"
  let ?w1 = "\<lparr>mongo = example_state0\<lparr>held := (\<lambda>u. [JStr ''f9b968e7dbf1f88ba0cf909900bebfd6''])\<rparr>,
              trace = []\<rparr>"
  have ne: "?docs \<noteq> []" by simp
  note T = flush_counts_write_errors [OF example_batch ne example_client]
  have i0: "insert_many ?S (mongo ?w0) MONGO_ATLAS_URI_1 ?docs =
      (InsertManyResult [JStr ''f9b968e7dbf1f88ba0cf909900bebfd6'', JStr ''1bba7108e99a7e1ef9aaf470a0da81d6''],
       example_state0\<lparr>held := (\<lambda>u. [])(MONGO_ATLAS_URI_1 :=
            [JStr ''f9b968e7dbf1f88ba0cf909900bebfd6'', JStr ''1bba7108e99a7e1ef9aaf470a0da81d6''])\<rparr>)"
    using example_insert_two by (simp add: example_services_def example_state0_def)
  have 1: "fst (insert_articles example_lib ?S ?arts ?w0) = Inr (2, 0)"
    using T [of ?S ?w0, THEN conjunct1, THEN mp, OF i0] by simp
  have h: "insert_many ?S = store_insert_many \<and> timeouts (mongo ?w1) = 0
           \<and> distinct (map (\<lambda>d. dict_get d ''_id'') ?docs)
           \<and> (1::nat) = length (filter (\<lambda>d. dict_get d ''_id'' \<in> set (held (mongo ?w1) MONGO_ATLAS_URI_1)) ?docs)"
    by (simp add: example_services_def example_state0_def example_document_def dict_get_def)
  have 2: "fst (insert_articles example_lib ?S ?arts ?w1) = Inr (1, 1)"
    using T [of ?S ?w1 _ _ _ _ 1, THEN conjunct2, THEN conjunct2, THEN conjunct2, THEN mp, OF h] by simp
  from 1 2 show ?thesis by simp
qed


text \<open>
  The claim as stated, that only identity collisions are counted as duplicates, fails on a
  bulk write in which the store rejects the second of two documents with error code 121
  (the document failed validation): one duplicate is reported and no write error is a
  duplicate key.
\<close>

theorem write_error_counted_as_duplicate_counterexample:
  "fst (insert_articles example_lib
          ((example_services [])
             \<lparr>insert_many := (\<lambda>s u docs. (BulkWriteError 1 [\<lparr>index = 1, code = 121\<rparr>], s))\<rparr>)
          [example_article ''Tesla recalls'' ''http://a/1'', example_article ''Tesla gains'' ''http://a/2'']
          \<lparr>mongo = example_state0, trace = []\<rparr>) = Inr (1, 1)
   \<and> length (filter (\<lambda>e. code e = 11000) [\<lparr>index = 1, code = 121\<rparr>]) = 0"
  by (simp add: insert_articles_flush [OF example_batch] example_client)





section \<open>The archive reader\<close>

lemma utf8_valid_replacement: "utf8_valid (replacement_character @ bs) = utf8_valid bs"
  "utf8_valid replacement_character"
  by (simp_all add: replacement_character_def continuation_def)

lemma utf8_valid_replace: "utf8_valid (utf8_replace bs)"
proof (induction "length bs" arbitrary: bs rule: less_induct)
  case less
  note IH = less.hyps
  note R = utf8_valid_replacement
  show ?case
  proof (cases bs)
    case Nil
    then show ?thesis by simp
  next
    case bs: (Cons b t)
    have t: "utf8_valid (utf8_replace t)"
      using IH [of t] bs by simp
    consider (a) "b < 128" | (b) "194 \<le> b \<and> b \<le> 223" | (c) "224 \<le> b \<and> b \<le> 239"
      | (d) "240 \<le> b \<and> b \<le> 244" | (e) "128 \<le> b \<and> b < 194 \<or> 244 < b"
      by linarith
    then show ?thesis
    proof cases
      case a
      with bs t show ?thesis by simp
    next
      case e
      with bs t show ?thesis by (auto simp: R)
    next
      case b
      show ?thesis
      proof (cases t)
        case Nil
        with bs b show ?thesis by (simp add: R)
      next
        case t1: (Cons c1 r1)
        have r1: "utf8_valid (utf8_replace r1)"
          using IH [of r1] bs t1 by simp
        from bs b t1 t r1 show ?thesis by (simp add: R)
      qed
    next
      case c
      show ?thesis
      proof (cases t)
        case Nil
        with bs c show ?thesis by (simp add: R)
      next
        case t1: (Cons c1 r1)
        have r1: "utf8_valid (utf8_replace r1)"
          using IH [of r1] bs t1 by simp
        show ?thesis
        proof (cases r1)
          case Nil
          with bs c t1 t show ?thesis by (simp add: R)
        next
          case t2: (Cons c2 r2)
          have r2: "utf8_valid (utf8_replace r2)"
            using IH [of r2] bs t1 t2 by simp
          from bs c t1 t2 t r1 r2 show ?thesis by (simp add: R)
        qed
      qed
    next
      case d
      show ?thesis
      proof (cases t)
        case Nil
        with bs d show ?thesis by (simp add: R)
      next
        case t1: (Cons c1 r1)
        have r1: "utf8_valid (utf8_replace r1)"
          using IH [of r1] bs t1 by simp
        show ?thesis
        proof (cases r1)
          case Nil
          with bs d t1 t show ?thesis by (simp add: R)
        next
          case t2: (Cons c2 r2)
          have r2: "utf8_valid (utf8_replace r2)"
            using IH [of r2] bs t1 t2 by simp
          show ?thesis
          proof (cases r2)
            case Nil
            with bs d t1 t2 t r1 show ?thesis by (simp add: R)
          next
            case t3: (Cons c3 r3)
            have r3: "utf8_valid (utf8_replace r3)"
              using IH [of r3] bs t1 t2 t3 by simp
            from bs d t1 t2 t3 t r1 r2 r3 show ?thesis by (simp add: R)
          qed
        qed
      qed
    qed
  qed
qed

lemma utf8_replace_valid: "utf8_valid bs \<Longrightarrow> utf8_replace bs = bs"
proof (induction "length bs" arbitrary: bs rule: less_induct)
  case less
  note IH = less.hyps
  note v = less.prems
  show ?case
  proof (cases bs)
    case Nil
    then show ?thesis by simp
  next
    case bs: (Cons b t)
    consider (a) "b < 128" | (b) "194 \<le> b \<and> b \<le> 223" | (c) "224 \<le> b \<and> b \<le> 239"
      | (d) "240 \<le> b \<and> b \<le> 244" | (e) "128 \<le> b \<and> b < 194 \<or> 244 < b"
      by linarith
    then show ?thesis
    proof cases
      case a
      with bs v IH [of t] show ?thesis by simp
    next
      case e
      with bs v show ?thesis by auto
    next
      case b
      show ?thesis
      proof (cases t)
        case Nil
        with bs b v show ?thesis by simp
      next
        case t1: (Cons c1 r1)
        from bs b t1 v have k: "continuation c1" "utf8_valid r1" by simp_all
        with bs b t1 IH [of r1] show ?thesis by simp
      qed
    next
      case c
      show ?thesis
      proof (cases t)
        case Nil
        with bs c v show ?thesis by simp
      next
        case t1: (Cons c1 r1)
        show ?thesis
        proof (cases r1)
          case Nil
          with bs c t1 v show ?thesis by simp
        next
          case t2: (Cons c2 r2)
          from bs c t1 t2 v have k: "continuation c1" "b = 224 \<longrightarrow> 160 \<le> c1" "b = 237 \<longrightarrow> c1 \<le> 159"
               "continuation c2" "utf8_valid r2"
            by simp_all
          with bs c t1 t2 IH [of r2] show ?thesis by simp
        qed
      qed
    next
      case d
      show ?thesis
      proof (cases t)
        case Nil
        with bs d v show ?thesis by simp
      next
        case t1: (Cons c1 r1)
        show ?thesis
        proof (cases r1)
          case Nil
          with bs d t1 v show ?thesis by simp
        next
          case t2: (Cons c2 r2)
          show ?thesis
          proof (cases r2)
            case Nil
            with bs d t1 t2 v show ?thesis by simp
          next
            case t3: (Cons c3 r3)
            from bs d t1 t2 t3 v have k: "continuation c1" "b = 240 \<longrightarrow> 144 \<le> c1" "b = 244 \<longrightarrow> c1 \<le> 143"
               "continuation c2" "continuation c3" "utf8_valid r3"
              by simp_all
            with bs d t1 t2 t3 IH [of r3] show ?thesis by simp
          qed
        qed
      qed
    qed
  qed
qed

lemma utf8_valid_byte: "utf8_valid bs \<Longrightarrow> n \<in> set bs \<Longrightarrow> n < 256"
proof (induction "length bs" arbitrary: bs rule: less_induct)
  case less
  note IH = less.hyps
  note v = less.prems
  show ?case
  proof (cases bs)
    case Nil
    with v show ?thesis by simp
  next
    case bs: (Cons b t)
    consider (a) "b < 128" | (b) "194 \<le> b \<and> b \<le> 223" | (c) "224 \<le> b \<and> b \<le> 239"
      | (d) "240 \<le> b \<and> b \<le> 244" | (e) "128 \<le> b \<and> b < 194 \<or> 244 < b"
      by linarith
    then show ?thesis
    proof cases
      case a
      with bs v IH [of t] show ?thesis by auto
    next
      case e
      with bs v show ?thesis by auto
    next
      case b
      show ?thesis
      proof (cases t)
        case Nil
        with bs b v show ?thesis by simp
      next
        case t1: (Cons c1 r1)
        from bs b t1 v(1) have k: "continuation c1" "utf8_valid r1" by simp_all
        with bs b t1 v(2) IH [of r1] show ?thesis by (auto simp: continuation_def)
      qed
    next
      case c
      show ?thesis
      proof (cases t)
        case Nil
        with bs c v show ?thesis by simp
      next
        case t1: (Cons c1 r1)
        show ?thesis
        proof (cases r1)
          case Nil
          with bs c t1 v show ?thesis by simp
        next
          case t2: (Cons c2 r2)
          from bs c t1 t2 v(1) have k: "continuation c1" "continuation c2" "utf8_valid r2"
            by simp_all
          with bs c t1 t2 v(2) IH [of r2] show ?thesis by (auto simp: continuation_def)
        qed
      qed
    next
      case d
      show ?thesis
      proof (cases t)
        case Nil
        with bs d v show ?thesis by simp
      next
        case t1: (Cons c1 r1)
        show ?thesis
        proof (cases r1)
          case Nil
          with bs d t1 v show ?thesis by simp
        next
          case t2: (Cons c2 r2)
          show ?thesis
          proof (cases r2)
            case Nil
            with bs d t1 t2 v show ?thesis by simp
          next
            case t3: (Cons c3 r3)
            from bs d t1 t2 t3 v(1) have k: "continuation c1" "continuation c2" "continuation c3" "utf8_valid r3"
              by simp_all
            with bs d t1 t2 t3 v(2) IH [of r3] show ?thesis by (auto simp: continuation_def)
          qed
        qed
      qed
    qed
  qed
qed

lemma of_char_char_of_valid: "utf8_valid bs \<Longrightarrow> map of_char (map char_of bs) = bs"
proof -
  assume "utf8_valid bs"
  then have "\<forall>n \<in> set bs. n < 256" using utf8_valid_byte by blast
  then show ?thesis by (induction bs) simp_all
qed

lemma decode_utf8_replace_valid: "utf8_valid (map of_char (decode_utf8_replace b))"
  by (simp only: decode_utf8_replace_def of_char_char_of_valid [OF utf8_valid_replace] utf8_valid_replace)

lemma decode_utf8_replace_id: "utf8_valid (map of_char b) \<Longrightarrow> decode_utf8_replace b = b"
  by (simp add: decode_utf8_replace_def utf8_replace_valid comp_def)

lemma read_lines_spec:
  assumes "\<forall>line \<in> set lines. \<forall>e. line_outcome L line \<noteq> Some (RaisesOther e)"
  shows "read_lines L key lines records w =
           (Inr (records @ parsed_records L lines),
            w\<lparr>trace := trace w @ skipped_diagnostics L key lines\<rparr>)"
  using assms
proof (induction lines arbitrary: records w)
  case Nil
  then show ?case by (simp add: parsed_records_def skipped_diagnostics_def)
next
  case (Cons line rest)
  from Cons.prems have rest: "\<forall>line \<in> set rest. \<forall>e. line_outcome L line \<noteq> Some (RaisesOther e)"
    and here: "\<forall>e. line_outcome L line \<noteq> Some (RaisesOther e)"
    by simp_all
  note IH = Cons.IH [OF rest]
  show ?case
  proof (cases "line_outcome L line")
    case None
    then have "str_strip L (decode_replace L line) = []"
      by (simp add: line_outcome_def Let_def split: if_splits)
    with None IH show ?thesis
      by (simp add: parsed_records_def skipped_diagnostics_def)
  next
    case (Some out)
    then have t: "str_strip L (decode_replace L line) \<noteq> []"
      and o: "json_loads L (str_strip L (decode_replace L line)) = out"
      by (simp_all add: line_outcome_def Let_def split: if_splits)
    show ?thesis
    proof (cases out)
      case (Parsed data)
      with Some t o IH show ?thesis
        by (simp add: parsed_records_def skipped_diagnostics_def)
    next
      case (RaisesJSONDecodeError e)
      with Some t o IH show ?thesis
        by (simp add: parsed_records_def skipped_diagnostics_def emit_def)
    next
      case (RaisesOther e)
      with Some here show ?thesis by simp
    qed
  qed
qed

lemma example_decodes:
  "decode_utf8_replace example_line = example_line"
  \<open>decode_utf8_replace example_line_ff
     = ''{"title": "Tesla '' @ [CHR 0xEF, CHR 0xBF, CHR 0xBD] @ ''"}'' @ [CHR 0x0A]\<close>
  \<open>decode_utf8_replace example_line_ff_after = ''{"a": 1}'' @ [CHR 0xEF, CHR 0xBF, CHR 0xBD, CHR 0x0A]\<close>
  \<open>decode_utf8_replace (''{oops'' @ [CHR 0x0A]) = ''{oops'' @ [CHR 0x0A]\<close>
  "decode_utf8_replace [CHR 0x0A] = [CHR 0x0A]"
  \<open>decode_utf8_replace (''{}'' @ [CHR 0x0A]) = ''{}'' @ [CHR 0x0A]\<close>
  by code_simp+

lemma example_outcomes:
  "line_outcome example_lib example_line
     = Some (Parsed (example_article ''Tesla recalls'' ''http://a/1''))"
  \<open>line_outcome example_lib (''{oops'' @ [CHR 0x0A])
     = Some (RaisesJSONDecodeError
               ''Expecting property name enclosed in double quotes: line 1 column 2 (char 1)'')\<close>
  "line_outcome example_lib [CHR 0x0A] = None"
  \<open>line_outcome example_lib example_line_ff
     = Some (Parsed (JObj [(''title'', JStr (''Tesla '' @ [CHR 0xEF, CHR 0xBF, CHR 0xBD]))]))\<close>
  \<open>line_outcome example_lib example_line_ff_after
     = Some (RaisesJSONDecodeError ''Extra data: line 1 column 9 (char 8)'')\<close>
  \<open>line_outcome example_lib (''{}'' @ [CHR 0x0A]) = Some (Parsed (JObj []))\<close>
  by code_simp+

text \<open>
  Claim C9, as amended. For an archive that decompresses, and lines on which
  \<^verbatim>\<open>json.loads\<close> returns or raises \<^verbatim>\<open>JSONDecodeError\<close>: a line that is empty once decoded and
  stripped is passed over in silence; each other line whose text does not parse is skipped
  with a diagnostic that names the key; the lines after it are still read; and the reader
  returns exactly the values of the lines that parsed, in order. No such line ends the
  reading of the file. Decoding fails on no line: the text of a line that is UTF-8 is the
  line, and in a line that is not UTF-8 the offending bytes are replaced by U+FFFD, the
  line then being kept or skipped as its text parses or not.
\<close>

theorem reader_skips_unparseable_lines:
  assumes "s3_get_lines S bucket key = Inr lines"
    and "\<forall>line \<in> set lines. \<forall>e. line_outcome L line \<noteq> Some (RaisesOther e)"
  shows "read_gz_file_from_s3 L S bucket key w =
           (Inr (parsed_records L lines),
            w\<lparr>trace := trace w @ skipped_diagnostics L key lines\<rparr>)
       \<and> (decode_replace L = decode_utf8_replace \<longrightarrow>
            (\<forall>line \<in> set lines.
               utf8_valid (map of_char (decode_replace L line))
               \<and> (utf8_valid (map of_char line) \<longrightarrow> decode_replace L line = line)
               \<and> (\<not> utf8_valid (map of_char line) \<longrightarrow> decode_replace L line \<noteq> line)))"
proof -
  have 1: "read_gz_file_from_s3 L S bucket key w =
           (Inr (parsed_records L lines),
            w\<lparr>trace := trace w @ skipped_diagnostics L key lines\<rparr>)"
    using assms(1) read_lines_spec [OF assms(2), of key "[]" w]
    by (simp add: read_gz_file_from_s3_def)
  have 2: "utf8_valid (map of_char (decode_replace L line))
           \<and> (utf8_valid (map of_char line) \<longrightarrow> decode_replace L line = line)
           \<and> (\<not> utf8_valid (map of_char line) \<longrightarrow> decode_replace L line \<noteq> line)"
    if "decode_replace L = decode_utf8_replace" for line
    using that decode_utf8_replace_valid [of line] decode_utf8_replace_id [of line] by auto
  from 1 2 show ?thesis by blast
qed

theorem reader_skips_unparseable_lines_witness:
  \<open>read_gz_file_from_s3 example_lib
      (example_services
         [(''20240105/a.gz'',
           [example_line, ''{oops'' @ [CHR 0x0A], [CHR 0x0A], example_line_ff, example_line_ff_after,
            ''{}'' @ [CHR 0x0A]])])
      ''bucket'' ''20240105/a.gz'' \<lparr>mongo = example_state0, trace = []\<rparr>
   = (Inr [example_article ''Tesla recalls'' ''http://a/1'',
           JObj [(''title'', JStr (''Tesla '' @ [CHR 0xEF, CHR 0xBF, CHR 0xBD]))],
           JObj []],
      \<lparr>mongo = example_state0,
       trace =
         [PrintSkippingCorrupted ''20240105/a.gz''
            ''Expecting property name enclosed in double quotes: line 1 column 2 (char 1)'',
          PrintSkippingCorrupted ''20240105/a.gz'' ''Extra data: line 1 column 9 (char 8)'']\<rparr>)
   \<and> \<not> utf8_valid (map of_char example_line_ff_after)
   \<and> utf8_valid (map of_char (decode_replace example_lib example_line_ff_after))
   \<and> decode_replace example_lib example_line_ff_after \<noteq> example_line_ff_after
   \<and> utf8_valid (map of_char example_line)
   \<and> decode_replace example_lib example_line = example_line\<close>
proof -
  let ?lines = "[example_line, ''{oops'' @ [CHR 0x0A], [CHR 0x0A], example_line_ff, example_line_ff_after,
                 ''{}'' @ [CHR 0x0A]]"
  let ?S = "example_services [(''20240105/a.gz'', ?lines)] :: store_state services"
  have g: "s3_get_lines ?S ''bucket'' ''20240105/a.gz'' = Inr ?lines"
    by (simp add: example_services_def)
  note o = example_outcomes
  have h: "\<forall>line \<in> set ?lines. \<forall>e. line_outcome example_lib line \<noteq> Some (RaisesOther e)"
    using o by simp
  have d: "decode_replace example_lib = decode_utf8_replace"
    by (simp add: example_lib_def)
  note T = reader_skips_unparseable_lines [OF g h, of "\<lparr>mongo = example_state0, trace = []\<rparr>"]
  have 1: "read_gz_file_from_s3 example_lib ?S ''bucket'' ''20240105/a.gz''
             \<lparr>mongo = example_state0, trace = []\<rparr>
           = (Inr [example_article ''Tesla recalls'' ''http://a/1'',
                   JObj [(''title'', JStr (''Tesla '' @ [CHR 0xEF, CHR 0xBF, CHR 0xBD]))],
                   JObj []],
              \<lparr>mongo = example_state0,
               trace =
                 [PrintSkippingCorrupted ''20240105/a.gz''
                    ''Expecting property name enclosed in double quotes: line 1 column 2 (char 1)'',
                  PrintSkippingCorrupted ''20240105/a.gz'' ''Extra data: line 1 column 9 (char 8)'']\<rparr>)"
    using T [THEN conjunct1] o by (simp add: parsed_records_def skipped_diagnostics_def)
  have nv: "\<not> utf8_valid (map of_char example_line_ff_after)"
    and v: "utf8_valid (map of_char example_line)"
    by code_simp+
  from T [THEN conjunct2, THEN mp, OF d]
  have a: "utf8_valid (map of_char (decode_replace example_lib example_line_ff_after))
           \<and> (utf8_valid (map of_char example_line_ff_after)
                \<longrightarrow> decode_replace example_lib example_line_ff_after = example_line_ff_after)
           \<and> (\<not> utf8_valid (map of_char example_line_ff_after)
                \<longrightarrow> decode_replace example_lib example_line_ff_after \<noteq> example_line_ff_after)"
    and b: "utf8_valid (map of_char (decode_replace example_lib example_line))
           \<and> (utf8_valid (map of_char example_line)
                \<longrightarrow> decode_replace example_lib example_line = example_line)
           \<and> (\<not> utf8_valid (map of_char example_line)
                \<longrightarrow> decode_replace example_lib example_line \<noteq> example_line)"
    by simp_all
  from 1 nv v a b show ?thesis by blast
qed

text \<open>
  The claim as stated, that a line which fails to decode as UTF-8 is skipped with a
  diagnostic, fails on a line whose title holds the byte \<open>0xFF\<close>: it is decoded with
  U+FFFD in its place, parses, and its record is returned with no diagnostic.
\<close>

theorem invalid_utf8_line_kept_counterexample:
  "\<not> utf8_valid (map of_char example_line_ff)
   \<and> read_gz_file_from_s3 example_lib
        (example_services [(''20240105/a.gz'', [example_line_ff])])
        ''bucket'' ''20240105/a.gz'' \<lparr>mongo = example_state0, trace = []\<rparr>
     = (Inr [JObj [(''title'', JStr (''Tesla '' @ [CHR 0xEF, CHR 0xBF, CHR 0xBD]))]],
        \<lparr>mongo = example_state0, trace = []\<rparr>)"
proof -
  have "\<not> utf8_valid (map of_char example_line_ff)"
    by code_simp
  then show ?thesis
    by (simp add: read_gz_file_from_s3_def example_services_def example_lib_def
          example_decodes example_loads_def strip_ascii_def is_space_def)
qed

section \<open>The daily loop\<close>

lemma example_empty_day:
  "process_articles_for_day L (example_services []) bucket date_str w = (Inr (0, 0), w)"
  by (simp add: process_articles_for_day_def list_gz_files_for_day_def example_services_def)

lemma example_strftime:
  "strftime example_lib (mk_datetime 2024 2 5 0 0 0 0) ''%Y%m%d'' = ''20240205''"
  by code_simp

lemma example_storage:
  "check_storage_limit (example_services []) (mk_datetime 2024 2 5 0 0 0 0)
      \<lparr>mongo = example_state0\<lparr>storage := (\<lambda>u. Some n)\<rparr>, trace = t\<rparr>
   = (Inr (of_nat n / (1024 * 1024)),
      \<lparr>mongo = example_state0\<lparr>storage := (\<lambda>u. Some n)\<rparr>,
       trace = t @ [Connect MONGO_ATLAS_URI_1, DbStats MONGO_ATLAS_URI_1]\<rparr>)"
proof -
  have "db_get_client_for_date (mk_datetime 2024 2 5 0 0 0 0) = Inr (MongoClient MONGO_ATLAS_URI_1)"
    by (simp add: db_get_client_for_date_def CLUSTERS_def in_window_def dt_le_mk)
  then show ?thesis
    by (simp add: check_storage_limit_def example_services_def example_state0_def)
qed

lemma example_next_day:
  "add_one_day (mk_datetime 2024 2 5 0 0 0 0) = Inr (mk_datetime 2024 2 6 0 0 0 0)"
  by (simp add: add_one_day_def mk_datetime_def days_in_month_def)

text \<open>
  Claim C1, as amended. For every reading \<open>r\<close> (in units of \<open>1024 * 1024\<close> bytes) that the
  storage check returns for a day, the body of the daily loop ends with \<^verbatim>\<open>break\<close> if and only
  if \<open>r > 490\<close>: then the run ends halted at that day and no later day is processed;
  otherwise the run goes on with the next day. A reading of 491 halts the run at the
  current day and a reading of 489 does not.
\<close>

theorem storage_check_halts_above_490:
  assumes "process_articles_for_day L S bucket (strftime L current_date ''%Y%m%d'')
              (emit (PrintProcessing (strftime L current_date ''%Y%m%d'')) w)
            = (Inr (inserted, duplicates), w1)"
    and "check_storage_limit S current_date
              (emit (LogLine (strftime L current_date ''%Y%m%d'') inserted duplicates)
                 (emit (PrintFinished (strftime L current_date ''%Y%m%d'') inserted duplicates) w1))
            = (Inr r, w2)"
  shows "(fst (day_body L S bucket current_date w) = Break \<longleftrightarrow> 490 < r)
       \<and> (490 < r \<and> datetime_le current_date end_day
            \<longrightarrow> load_articles_for_date_range L S bucket current_date end_day w
                  = (Halted current_date, emit PrintStopping (emit (PrintStorage r) w2)))
       \<and> (\<not> 490 < r \<and> datetime_le current_date end_day \<and> add_one_day current_date = Inr next_date
            \<longrightarrow> load_articles_for_date_range L S bucket current_date end_day w
                  = load_articles_for_date_range L S bucket next_date end_day
                      (emit (PrintStorage r) w2))"
proof -
  have b: "day_body L S bucket current_date w =
      (if 490 < r then (Break, emit PrintStopping (emit (PrintStorage r) w2))
       else (case add_one_day current_date of
               Inl e \<Rightarrow> (Raise e, emit (PrintStorage r) w2)
             | Inr next_date \<Rightarrow> (Advance next_date, emit (PrintStorage r) w2)))"
    using assms by (simp add: day_body_def Let_def)
  have 1: "fst (day_body L S bucket current_date w) = Break \<longleftrightarrow> 490 < r"
    by (simp add: b split: sum.splits)
  have 2: "load_articles_for_date_range L S bucket current_date end_day w
            = (Halted current_date, emit PrintStopping (emit (PrintStorage r) w2))"
    if "490 < r \<and> datetime_le current_date end_day"
    using that by (simp add: b)
  have 3: "load_articles_for_date_range L S bucket current_date end_day w
            = load_articles_for_date_range L S bucket next_date end_day (emit (PrintStorage r) w2)"
    if "\<not> 490 < r \<and> datetime_le current_date end_day \<and> add_one_day current_date = Inr next_date"
    using that by (subst load_articles_for_date_range.simps) (simp add: b)
  from 1 2 3 show ?thesis by blast
qed

theorem storage_check_halts_above_490_witness:
  "fst (load_articles_for_date_range example_lib (example_services []) ''bucket''
          (mk_datetime 2024 2 5 0 0 0 0) (mk_datetime 2024 2 29 0 0 0 0)
          \<lparr>mongo = example_state0\<lparr>storage := (\<lambda>u. Some 514850816)\<rparr>, trace = []\<rparr>)
     = Halted (mk_datetime 2024 2 5 0 0 0 0)
   \<and> fst (day_body example_lib (example_services []) ''bucket'' (mk_datetime 2024 2 5 0 0 0 0)
          \<lparr>mongo = example_state0\<lparr>storage := (\<lambda>u. Some 512753664)\<rparr>, trace = []\<rparr>)
     = Advance (mk_datetime 2024 2 6 0 0 0 0)"
proof -
  let ?d = "mk_datetime 2024 2 5 0 0 0 0"
  let ?S = "example_services [] :: store_state services"
  let ?w = "\<lambda>n. \<lparr>mongo = example_state0\<lparr>storage := (\<lambda>u. Some n)\<rparr>, trace = []\<rparr>"
  note T = storage_check_halts_above_490
             [where L = example_lib and S = ?S and bucket = "''bucket''" and current_date = ?d
                and end_day = "mk_datetime 2024 2 29 0 0 0 0",
              OF example_empty_day]
  have c: "check_storage_limit ?S ?d
             (emit (LogLine (strftime example_lib ?d ''%Y%m%d'') 0 0)
                (emit (PrintFinished (strftime example_lib ?d ''%Y%m%d'') 0 0)
                   (emit (PrintProcessing (strftime example_lib ?d ''%Y%m%d'')) (?w n))))
           = (Inr (of_nat n / (1024 * 1024)),
              \<lparr>mongo = example_state0\<lparr>storage := (\<lambda>u. Some n)\<rparr>,
               trace = [PrintProcessing ''20240205'', PrintFinished ''20240205'' 0 0,
                        LogLine ''20240205'' 0 0, Connect MONGO_ATLAS_URI_1, DbStats MONGO_ATLAS_URI_1]\<rparr>)"
    for n
    by (simp add: emit_def example_storage example_strftime)
  have le: "datetime_le ?d (mk_datetime 2024 2 29 0 0 0 0)"
    by (simp add: dt_le_mk)
  have 1: "fst (load_articles_for_date_range example_lib ?S ''bucket'' ?d (mk_datetime 2024 2 29 0 0 0 0)
             (?w 514850816)) = Halted ?d"
    using T [OF c [of 514850816], THEN conjunct2, THEN conjunct1] le
    by simp
  have "fst (day_body example_lib ?S ''bucket'' ?d (?w 512753664)) \<noteq> Break"
    using T [OF c [of 512753664], THEN conjunct1] by simp
  then have 2: "fst (day_body example_lib ?S ''bucket'' ?d (?w 512753664))
                 = Advance (mk_datetime 2024 2 6 0 0 0 0)"
    using c [of 512753664]
    by (simp add: day_body_def Let_def example_empty_day example_next_day)
  from 1 2 show ?thesis by simp
qed

text \<open>
  The claim as stated, halting if and only if \<open>r \<ge> 490\<close>, fails at the reading 490
  (\<open>513802240\<close> bytes): the day's body advances to the next day, and a run over that one
  day completes.
\<close>

theorem reading_490_does_not_halt_counterexample:
  "fst (check_storage_limit (example_services []) (mk_datetime 2024 2 5 0 0 0 0)
          \<lparr>mongo = example_state0\<lparr>storage := (\<lambda>u. Some 513802240)\<rparr>, trace = []\<rparr>)
     = Inr 490
   \<and> fst (day_body example_lib (example_services []) ''bucket'' (mk_datetime 2024 2 5 0 0 0 0)
          \<lparr>mongo = example_state0\<lparr>storage := (\<lambda>u. Some 513802240)\<rparr>, trace = []\<rparr>)
     = Advance (mk_datetime 2024 2 6 0 0 0 0)
   \<and> fst (load_articles_for_date_range example_lib (example_services []) ''bucket''
          (mk_datetime 2024 2 5 0 0 0 0) (mk_datetime 2024 2 5 0 0 0 0)
          \<lparr>mongo = example_state0\<lparr>storage := (\<lambda>u. Some 513802240)\<rparr>, trace = []\<rparr>)
     = Completed"
proof -
  let ?d = "mk_datetime 2024 2 5 0 0 0 0"
  let ?S = "example_services [] :: store_state services"
  let ?w = "\<lparr>mongo = example_state0\<lparr>storage := (\<lambda>u. Some 513802240)\<rparr>, trace = []\<rparr>"
  have 1: "fst (check_storage_limit ?S ?d ?w) = Inr 490"
    by (simp add: example_storage)
  have b: "day_body example_lib ?S ''bucket'' ?d ?w =
      (Advance (mk_datetime 2024 2 6 0 0 0 0),
       \<lparr>mongo = example_state0\<lparr>storage := (\<lambda>u. Some 513802240)\<rparr>,
        trace = [PrintProcessing ''20240205'', PrintFinished ''20240205'' 0 0,
                 LogLine ''20240205'' 0 0, Connect MONGO_ATLAS_URI_1, DbStats MONGO_ATLAS_URI_1,
                 PrintStorage 490]\<rparr>)"
    by (simp add: day_body_def Let_def example_empty_day example_next_day emit_def
          example_storage example_strftime)
  have 3: "fst (load_articles_for_date_range example_lib ?S ''bucket'' ?d ?d ?w) = Completed"
    by (subst load_articles_for_date_range.simps) (simp add: b dt_le_mk)
  from 1 b 3 show ?thesis by simp
qed

section \<open>One day's batches\<close>

lemma adds_only_refl: "adds_only P w w"
  by (simp add: adds_only_def)

lemma adds_only_trans: "adds_only P w w1 \<Longrightarrow> adds_only P w1 w2 \<Longrightarrow> adds_only P w w2"
  by (auto simp: adds_only_def)

lemma adds_only_emit: "P e \<Longrightarrow> adds_only P w (emit e w)"
  by (simp add: adds_only_def emit_def)

lemma adds_only_mono: "(\<And>e. P e \<Longrightarrow> Q e) \<Longrightarrow> adds_only P w w' \<Longrightarrow> adds_only Q w w'"
  by (auto simp: adds_only_def list_all_iff)

lemma writes_at_most_mono: "j \<le> k \<Longrightarrow> writes_at_most j e \<Longrightarrow> writes_at_most k e"
  by (auto simp: writes_at_most_def split: event.splits)

lemma prepare_loop_length:
  "prepare_loop L articles documents = Inr docs \<Longrightarrow> length docs \<le> length documents + length articles"
proof (induction articles arbitrary: documents)
  case Nil
  then show ?case by simp
next
  case (Cons article rest)
  show ?case
  proof (cases "prepare_document L article")
    case (Inl e)
    with Cons.prems show ?thesis by simp
  next
    case (Inr r)
    show ?thesis
    proof (cases r)
      case None
      with Inr Cons.prems have "prepare_loop L rest documents = Inr docs" by simp
      from Cons.IH [OF this] show ?thesis by simp
    next
      case (Some doc)
      with Inr Cons.prems have "prepare_loop L rest (documents @ [doc]) = Inr docs" by simp
      from Cons.IH [OF this] show ?thesis by simp
    qed
  qed
qed

lemma retry_loop_adds:
  "retry_loop L S documents n i d w = (r, w') \<Longrightarrow>
   adds_only (writes_at_most (length documents)) w w'"
proof (induction n arbitrary: w)
  case 0
  then show ?case by (simp add: adds_only_refl)
next
  case (Suc n)
  show ?case
  proof (cases "client_for_first L documents")
    case (Inl e)
    with Suc.prems show ?thesis by (auto simp: adds_only_refl)
  next
    case (Inr c)
    obtain u where c: "c = MongoClient u" by (cases c)
    obtain out s where o: "insert_many S (mongo w) u documents = (out, s)"
      by (cases "insert_many S (mongo w) u documents")
    show ?thesis
    proof (cases out)
      case ServerSelectionTimeoutError
      let ?w1 = "\<lparr>mongo = s, trace = trace w @ [Connect u, InsertMany u documents, PrintRetry n, Sleep 5]\<rparr>"
      from Suc.prems Inr c o ServerSelectionTimeoutError
      have "retry_loop L S documents n i d ?w1 = (r, w')" by simp
      from Suc.IH [OF this] have "adds_only (writes_at_most (length documents)) ?w1 w'" .
      moreover have "adds_only (writes_at_most (length documents)) w ?w1"
        by (simp add: adds_only_def writes_at_most_def)
      ultimately show ?thesis by (rule adds_only_trans [rotated])
    qed (use Suc.prems Inr c o in \<open>auto simp: adds_only_def writes_at_most_def\<close>)
  qed
qed

lemma insert_articles_adds:
  assumes "insert_articles L S articles w = (r, w')"
  shows "adds_only (writes_at_most (length articles)) w w'"
proof (cases "prepare_loop L articles []")
  case (Inl e)
  with assms show ?thesis by (simp add: insert_articles_def adds_only_refl)
next
  case (Inr documents)
  from prepare_loop_length [OF Inr] have len: "length documents \<le> length articles" by simp
  show ?thesis
  proof (cases "documents = []")
    case True
    with Inr assms show ?thesis by (simp add: insert_articles_def adds_only_refl)
  next
    case False
    obtain r1 w1 where l: "retry_loop L S documents 3 0 0 w = (r1, w1)"
      by (cases "retry_loop L S documents 3 0 0 w")
    from retry_loop_adds [OF l] len have a: "adds_only (writes_at_most (length articles)) w w1"
      by (auto intro: adds_only_mono writes_at_most_mono)
    have b: "adds_only (writes_at_most (length articles)) w1 (emit PrintAllRetriesFailed w1)"
      by (simp add: adds_only_emit writes_at_most_def)
    from assms Inr False l have "w' = w1 \<or> w' = emit PrintAllRetriesFailed w1"
      by (auto simp: insert_articles_def split: sum.splits prod.splits if_splits)
    with a b show ?thesis by (auto intro: adds_only_trans)
  qed
qed

lemma read_lines_adds:
  "read_lines L key lines records w = (r, w') \<Longrightarrow> adds_only (writes_at_most k) w w'"
proof (induction lines arbitrary: records w)
  case Nil
  then show ?case by (simp add: adds_only_refl)
next
  case (Cons line rest)
  let ?text = "str_strip L (decode_replace L line)"
  show ?case
  proof (cases "?text = []")
    case True
    with Cons.prems have "read_lines L key rest records w = (r, w')" by simp
    from Cons.IH [OF this] show ?thesis .
  next
    case False
    show ?thesis
    proof (cases "json_loads L ?text")
      case (Parsed data)
      with False Cons.prems have "read_lines L key rest (records @ [data]) w = (r, w')" by simp
      from Cons.IH [OF this] show ?thesis .
    next
      case (RaisesJSONDecodeError e)
      with False Cons.prems
      have "read_lines L key rest records (emit (PrintSkippingCorrupted key e) w) = (r, w')" by simp
      from Cons.IH [OF this]
      have "adds_only (writes_at_most k) (emit (PrintSkippingCorrupted key e) w) w'" .
      moreover have "adds_only (writes_at_most k) w (emit (PrintSkippingCorrupted key e) w)"
        by (simp add: adds_only_emit writes_at_most_def)
      ultimately show ?thesis by (rule adds_only_trans [rotated])
    next
      case (RaisesOther e)
      with False Cons.prems show ?thesis by (auto simp: adds_only_refl)
    qed
  qed
qed

lemma read_gz_file_adds:
  "read_gz_file_from_s3 L S bucket key w = (r, w') \<Longrightarrow> adds_only (writes_at_most k) w w'"
  by (auto simp: read_gz_file_from_s3_def adds_only_refl split: sum.splits dest: read_lines_adds)

lemma process_keys_batches:
  "\<forall>key \<in> set keys. \<forall>w articles w1.
      read_gz_file_from_s3 L S bucket key w = (Inr articles, w1) \<longrightarrow> length articles \<le> m \<Longrightarrow>
   length pending_batch < BATCH_SIZE \<Longrightarrow>
   process_keys L S bucket keys total_inserted total_duplicates pending_batch w = (r, w') \<Longrightarrow>
   adds_only (writes_at_most (BATCH_SIZE - 1 + m)) w w'
   \<and> (\<forall>ti td p. r = Inr (ti, td, p) \<longrightarrow> length p < BATCH_SIZE)"
proof (induction keys arbitrary: total_inserted total_duplicates pending_batch w)
  case Nil
  then show ?case by (auto simp: adds_only_refl)
next
  case (Cons key keys)
  let ?P = "writes_at_most (BATCH_SIZE - 1 + m)"
  let ?w0 = "emit (PrintProcessingFile key) w"
  from Cons.prems(1) have bound: "\<forall>w articles w1.
      read_gz_file_from_s3 L S bucket key w = (Inr articles, w1) \<longrightarrow> length articles \<le> m"
    and rest: "\<forall>key \<in> set keys. \<forall>w articles w1.
      read_gz_file_from_s3 L S bucket key w = (Inr articles, w1) \<longrightarrow> length articles \<le> m"
    by simp_all
  note pend = Cons.prems(2)
  note run = Cons.prems(3)
  have e0: "adds_only ?P w ?w0"
    by (simp add: adds_only_emit writes_at_most_def)
  obtain ra w1 where rd: "read_gz_file_from_s3 L S bucket key ?w0 = (ra, w1)"
    by (cases "read_gz_file_from_s3 L S bucket key ?w0")
  from read_gz_file_adds [OF rd] have e1: "adds_only ?P ?w0 w1" .
  from e0 e1 have e01: "adds_only ?P w w1" by (rule adds_only_trans)
  show ?case
  proof (cases ra)
    case (Inl e)
    with run rd e01 show ?thesis by auto
  next
    case (Inr articles)
    from bound rd Inr have am: "length articles \<le> m" by blast
    show ?thesis
    proof (cases "articles = []")
      case True
      with run rd Inr
      have "process_keys L S bucket keys total_inserted total_duplicates pending_batch w1 = (r, w')"
        by simp
      from Cons.IH [OF rest pend this] e01 show ?thesis
        by (auto intro: adds_only_trans)
    next
      case False
      show ?thesis
      proof (cases "BATCH_SIZE \<le> length (pending_batch @ articles)")
        case small: False
        with run rd Inr False
        have pk: "process_keys L S bucket keys total_inserted total_duplicates
                (pending_batch @ articles) w1 = (r, w')"
          by simp
        from small have lt: "length (pending_batch @ articles) < BATCH_SIZE" by simp
        from Cons.IH [OF rest lt pk] e01 show ?thesis
          by (auto intro: adds_only_trans)
      next
        case True
        obtain ri w2 where ins: "insert_articles L S (pending_batch @ articles) w1 = (ri, w2)"
          by (cases "insert_articles L S (pending_batch @ articles) w1")
        from pend am have "length (pending_batch @ articles) \<le> BATCH_SIZE - 1 + m"
          by simp
        with insert_articles_adds [OF ins] have e2: "adds_only ?P w1 w2"
          by (auto intro: adds_only_mono writes_at_most_mono)
        from e01 e2 have e02: "adds_only ?P w w2" by (rule adds_only_trans)
        show ?thesis
        proof (cases ri)
          case (Inl e)
          with run rd Inr False True ins e02 show ?thesis by auto
        next
          case ok: (Inr counts)
          obtain inserted duplicates where cnt: "counts = (inserted, duplicates)"
            by (cases counts)
          let ?w3 = "emit (Sleep 1) w2"
          have e3: "adds_only ?P w2 ?w3"
            by (simp add: adds_only_emit writes_at_most_def)
          from run rd Inr False True ins ok cnt
          have pk: "process_keys L S bucket keys (total_inserted + inserted)
                  (total_duplicates + duplicates) [] ?w3 = (r, w')"
            by simp
          have lt: "length ([] :: json list) < BATCH_SIZE"
            by (simp add: BATCH_SIZE_def)
          from Cons.IH [OF rest lt pk] e02 e3 show ?thesis
            by (auto intro: adds_only_trans)
        qed
      qed
    qed
  qed
qed

lemma day_writes_bounded:
  assumes "list_gz_files_for_day S bucket date_str = Inr keys"
    and "\<forall>key \<in> set keys. \<forall>w articles w1.
      read_gz_file_from_s3 L S bucket key w = (Inr articles, w1) \<longrightarrow> length articles \<le> m"
    and "process_articles_for_day L S bucket date_str w = (r, w')"
  shows "adds_only (writes_at_most (BATCH_SIZE - 1 + m)) w w'"
proof -
  let ?P = "writes_at_most (BATCH_SIZE - 1 + m)"
  have z: "length ([] :: json list) < BATCH_SIZE"
    by (simp add: BATCH_SIZE_def)
  obtain rk w1 where pk: "process_keys L S bucket keys 0 0 [] w = (rk, w1)"
    by (cases "process_keys L S bucket keys 0 0 [] w")
  from process_keys_batches [OF assms(2) z pk]
  have e1: "adds_only ?P w w1"
    and p: "\<forall>ti td p. rk = Inr (ti, td, p) \<longrightarrow> length p < BATCH_SIZE"
    by blast+
  show ?thesis
  proof (cases rk)
    case (Inl e)
    with assms(1,3) pk e1 show ?thesis by (simp add: process_articles_for_day_def)
  next
    case ok: (Inr res)
    obtain ti td pending where res: "res = (ti, td, pending)" by (cases res)
    show ?thesis
    proof (cases "pending = []")
      case True
      with assms(1,3) pk ok res e1 show ?thesis by (simp add: process_articles_for_day_def)
    next
      case False
      obtain ri w2 where ins: "insert_articles L S pending w1 = (ri, w2)"
        by (cases "insert_articles L S pending w1")
      from p ok res have "length pending \<le> BATCH_SIZE - 1 + m" by simp
      with insert_articles_adds [OF ins] have e2: "adds_only ?P w1 w2"
        by (auto intro: adds_only_mono writes_at_most_mono)
      from assms(1,3) pk ok res False ins have "w' = w2"
        by (auto simp: process_articles_for_day_def split: sum.splits prod.splits)
      with e1 e2 show ?thesis by (auto intro: adds_only_trans)
    qed
  qed
qed

lemma retry_loop_frame:
  "retry_loop L S documents n i d w = (r, w') \<Longrightarrow> mongo w0 = mongo w \<Longrightarrow>
   \<exists>evs. trace w' = trace w @ evs
       \<and> retry_loop L S documents n i d w0 = (r, \<lparr>mongo = mongo w', trace = trace w0 @ evs\<rparr>)"
proof (induction n arbitrary: w w0)
  case 0
  then show ?case by auto
next
  case (Suc n)
  show ?case
  proof (cases "client_for_first L documents")
    case (Inl e)
    with Suc.prems show ?thesis by auto
  next
    case (Inr c)
    obtain u where c: "c = MongoClient u" by (cases c)
    obtain out s where o: "insert_many S (mongo w) u documents = (out, s)"
      by (cases "insert_many S (mongo w) u documents")
    show ?thesis
    proof (cases out)
      case ServerSelectionTimeoutError
      let ?e = "[Connect u, InsertMany u documents, PrintRetry n, Sleep 5]"
      let ?wa = "\<lparr>mongo = s, trace = trace w @ ?e\<rparr>"
      let ?wb = "\<lparr>mongo = s, trace = trace w0 @ ?e\<rparr>"
      from Suc.prems Inr c o ServerSelectionTimeoutError
      have 1: "retry_loop L S documents n i d ?wa = (r, w')" by simp
      have 2: "mongo ?wb = mongo ?wa" by simp
      from Suc.IH [OF 1 2] obtain evs where
        t: "trace w' = trace ?wa @ evs"
        and r: "retry_loop L S documents n i d ?wb = (r, \<lparr>mongo = mongo w', trace = trace ?wb @ evs\<rparr>)"
        by blast
      from Suc.prems(2) Inr c o ServerSelectionTimeoutError r
      have "retry_loop L S documents (Suc n) i d w0 = (r, \<lparr>mongo = mongo w', trace = trace w0 @ (?e @ evs)\<rparr>)"
        by simp
      moreover from t have "trace w' = trace w @ (?e @ evs)" by simp
      ultimately show ?thesis by blast
    qed (use Suc.prems Inr c o in auto)
  qed
qed

lemma insert_articles_frame:
  assumes "insert_articles L S articles w = (r, w')" "mongo w0 = mongo w"
  shows "\<exists>evs. trace w' = trace w @ evs
       \<and> insert_articles L S articles w0 = (r, \<lparr>mongo = mongo w', trace = trace w0 @ evs\<rparr>)"
proof (cases "prepare_loop L articles []")
  case (Inl e)
  with assms show ?thesis by (auto simp: insert_articles_def)
next
  case (Inr documents)
  show ?thesis
  proof (cases "documents = []")
    case True
    with Inr assms show ?thesis by (auto simp: insert_articles_def)
  next
    case False
    obtain r1 w1 where l: "retry_loop L S documents 3 0 0 w = (r1, w1)"
      by (cases "retry_loop L S documents 3 0 0 w")
    from retry_loop_frame [OF l assms(2)] obtain evs where
      t: "trace w1 = trace w @ evs"
      and r0: "retry_loop L S documents 3 0 0 w0 = (r1, \<lparr>mongo = mongo w1, trace = trace w0 @ evs\<rparr>)"
      by blast
    show ?thesis
    proof (cases r1)
      case (Inl e)
      with assms(1) Inr False l r0 t show ?thesis by (auto simp: insert_articles_def)
    next
      case ok: (Inr res)
      obtain k i d where res: "res = (k, i, d)" by (cases res)
      show ?thesis
      proof (cases "k = 0")
        case True
        with assms(1) Inr False l r0 t ok res
        have "trace w' = trace w @ (evs @ [PrintAllRetriesFailed])
            \<and> insert_articles L S articles w0
                = (r, \<lparr>mongo = mongo w', trace = trace w0 @ (evs @ [PrintAllRetriesFailed])\<rparr>)"
          by (auto simp: insert_articles_def emit_def)
        then show ?thesis by blast
      next
        case nz: False
        with assms(1) Inr False l r0 t ok res show ?thesis
          by (auto simp: insert_articles_def)
      qed
    qed
  qed
qed

lemma same_writes_emit:
  "\<not> is_write e \<Longrightarrow> same_writes w v \<Longrightarrow> same_writes (emit e w) v"
  by (simp add: same_writes_def emit_def)

lemma skipped_diagnostics_no_write: "filter is_write (skipped_diagnostics L key lines) = []"
  by (induction lines)
     (auto simp: skipped_diagnostics_def is_write_def split: option.splits loads_outcome.splits)

lemma read_readable:
  assumes "archive_readable L S bucket key"
  shows "\<exists>w1. read_gz_file_from_s3 L S bucket key w = (Inr (archive_records L S bucket key), w1)
           \<and> mongo w1 = mongo w
           \<and> filter is_write (trace w1) = filter is_write (trace w)"
proof -
  from assms obtain lines where g: "s3_get_lines S bucket key = Inr lines"
    and l: "list_all (\<lambda>line. case line_outcome L line of Some (RaisesOther e) \<Rightarrow> False | _ \<Rightarrow> True) lines"
    by (auto simp: archive_readable_def split: sum.splits)
  from l have h: "\<forall>line \<in> set lines. \<forall>e. line_outcome L line \<noteq> Some (RaisesOther e)"
    by (auto simp: list_all_iff split: option.splits loads_outcome.splits)
  from g read_lines_spec [OF h, of key "[]" w] show ?thesis
    by (simp add: read_gz_file_from_s3_def archive_records_def skipped_diagnostics_no_write)
qed

lemma insert_articles_same_writes:
  assumes "insert_articles L S articles w = (r, w')" "same_writes w v"
  shows "\<exists>v'. insert_articles L S articles v = (r, v') \<and> same_writes w' v'"
proof -
  from assms(2) have m: "mongo v = mongo w" by (simp add: same_writes_def)
  from insert_articles_frame [OF assms(1) m] obtain evs where
    t: "trace w' = trace w @ evs"
    and r: "insert_articles L S articles v = (r, \<lparr>mongo = mongo w', trace = trace v @ evs\<rparr>)"
    by blast
  from t assms(2) have "same_writes w' \<lparr>mongo = mongo w', trace = trace v @ evs\<rparr>"
    by (simp add: same_writes_def)
  with r show ?thesis by blast
qed

lemma process_keys_flushes:
  "\<forall>key \<in> set keys. archive_readable L S bucket key \<Longrightarrow>
   length pending_batch < BATCH_SIZE \<Longrightarrow>
   process_keys L S bucket keys total_inserted total_duplicates pending_batch w = (r, w') \<Longrightarrow>
   same_writes w v \<Longrightarrow>
   (case flush_batches L S (flushed_midday pending_batch (map (archive_records L S bucket) keys))
           total_inserted total_duplicates v of
      (Inl e, v') \<Rightarrow> r = Inl e \<and> same_writes w' v'
    | (Inr (ti, td), v') \<Rightarrow>
        r = Inr (ti, td, pending_after pending_batch (map (archive_records L S bucket) keys))
        \<and> same_writes w' v')"
proof (induction keys arbitrary: total_inserted total_duplicates pending_batch w v)
  case Nil
  then show ?case by auto
next
  case (Cons key keys)
  let ?articles = "archive_records L S bucket key"
  let ?files = "map (archive_records L S bucket) keys"
  from Cons.prems(1) have rk: "archive_readable L S bucket key"
    and rest: "\<forall>key \<in> set keys. archive_readable L S bucket key"
    by simp_all
  from read_readable [OF rk, of "emit (PrintProcessingFile key) w"] obtain w1 where
    rd: "read_gz_file_from_s3 L S bucket key (emit (PrintProcessingFile key) w) = (Inr ?articles, w1)"
    and m1: "mongo w1 = mongo (emit (PrintProcessingFile key) w)"
    and t1: "filter is_write (trace w1) = filter is_write (trace (emit (PrintProcessingFile key) w))"
    by blast
  from m1 t1 Cons.prems(4) have s1: "same_writes w1 v"
    by (simp add: same_writes_def emit_def is_write_def)
  show ?case
  proof (cases "BATCH_SIZE \<le> length (pending_batch @ ?articles)")
    case small: False
    have pk: "process_keys L S bucket keys total_inserted total_duplicates
                (pending_batch @ ?articles) w1 = (r, w')"
    proof (cases "?articles = []")
      case True
      with Cons.prems(3) rd show ?thesis by simp
    next
      case False
      with Cons.prems(3) rd small show ?thesis by simp
    qed
    from small have lt: "length (pending_batch @ ?articles) < BATCH_SIZE" by simp
    from small
    have fm: "flushed_midday pending_batch (?articles # ?files)
                = flushed_midday (pending_batch @ ?articles) ?files"
      and pa: "pending_after pending_batch (?articles # ?files)
                = pending_after (pending_batch @ ?articles) ?files"
      by simp_all
    from Cons.IH [OF rest lt pk s1] show ?thesis
      by (simp only: list.map fm pa)
  next
    case True
    with Cons.prems(2) have ne: "?articles \<noteq> []" by auto
    obtain ri w2 where ins: "insert_articles L S (pending_batch @ ?articles) w1 = (ri, w2)"
      by (cases "insert_articles L S (pending_batch @ ?articles) w1")
    from insert_articles_same_writes [OF ins s1] obtain v2 where
      insv: "insert_articles L S (pending_batch @ ?articles) v = (ri, v2)" and s2: "same_writes w2 v2"
      by blast
    show ?thesis
    proof (cases ri)
      case (Inl e)
      with Cons.prems(3) rd ne True ins have "r = Inl e" "w' = w2" by simp_all
      moreover from True
      have fm: "flushed_midday pending_batch (?articles # ?files)
                  = (pending_batch @ ?articles) # flushed_midday [] ?files"
        by simp
      have "flush_batches L S ((pending_batch @ ?articles) # flushed_midday [] ?files)
                  total_inserted total_duplicates v = (Inl e, v2)"
        using insv Inl by simp
      ultimately show ?thesis using s2 by (simp only: list.map fm) simp
    next
      case ok: (Inr counts)
      obtain inserted duplicates where cnt: "counts = (inserted, duplicates)"
        by (cases counts)
      from Cons.prems(3) rd ne True ins ok cnt
      have pk: "process_keys L S bucket keys (total_inserted + inserted)
                  (total_duplicates + duplicates) [] (emit (Sleep 1) w2) = (r, w')"
        by simp
      have lt: "length ([] :: json list) < BATCH_SIZE"
        by (simp add: BATCH_SIZE_def)
      have s3: "same_writes (emit (Sleep 1) w2) v2"
        using s2 by (simp add: same_writes_emit is_write_def)
      from True
      have fm: "flushed_midday pending_batch (?articles # ?files)
                  = (pending_batch @ ?articles) # flushed_midday [] ?files"
        and pa: "pending_after pending_batch (?articles # ?files) = pending_after [] ?files"
        by simp_all
      have fl: "flush_batches L S ((pending_batch @ ?articles) # flushed_midday [] ?files)
                  total_inserted total_duplicates v
                = flush_batches L S (flushed_midday [] ?files) (total_inserted + inserted)
                    (total_duplicates + duplicates) v2"
        using insv ok cnt by simp
      from Cons.IH [OF rest lt pk s3] show ?thesis
        by (simp only: list.map fm pa fl)
    qed
  qed
qed

lemma flush_batches_append:
  "flush_batches L S (xs @ ys) ti td v =
     (case flush_batches L S xs ti td v of
        (Inl e, v') \<Rightarrow> (Inl e, v')
      | (Inr (a, b), v') \<Rightarrow> flush_batches L S ys a b v')"
  by (induction xs arbitrary: ti td v) (auto split: prod.splits sum.splits)

lemma same_writes_refl: "same_writes w w"
  by (simp add: same_writes_def)

lemma day_flushes:
  assumes "list_gz_files_for_day S bucket date_str = Inr keys"
    and "\<forall>key \<in> set keys. archive_readable L S bucket key"
    and "process_articles_for_day L S bucket date_str w = (r, w')"
  shows "r = fst (flush_batches L S (day_batches (map (archive_records L S bucket) keys)) 0 0 w)
       \<and> same_writes w' (snd (flush_batches L S (day_batches (map (archive_records L S bucket) keys)) 0 0 w))"
proof -
  let ?files = "map (archive_records L S bucket) keys"
  obtain rk w1 where pk: "process_keys L S bucket keys 0 0 [] w = (rk, w1)"
    by (cases "process_keys L S bucket keys 0 0 [] w")
  obtain rf v1 where fl: "flush_batches L S (flushed_midday [] ?files) 0 0 w = (rf, v1)"
    by (cases "flush_batches L S (flushed_midday [] ?files) 0 0 w")
  have lt: "length ([] :: json list) < BATCH_SIZE"
    by (simp add: BATCH_SIZE_def)
  note P = process_keys_flushes [OF assms(2) lt pk same_writes_refl]
  let ?p = "pending_after [] ?files"
  note D = process_articles_for_day_def
  show ?thesis
  proof (cases rf)
    case (Inl e)
    with P fl have rk: "rk = Inl e" and s1: "same_writes w1 v1" by simp_all
    have spec: "flush_batches L S (day_batches ?files) 0 0 w = (Inl e, v1)"
      by (simp add: day_batches_def flush_batches_append fl Inl)
    from assms(1,3) pk rk have "r = Inl e" "w' = w1" by (simp_all add: D)
    with spec s1 show ?thesis by simp
  next
    case ok: (Inr counts)
    obtain ti td where cnt: "counts = (ti, td)" by (cases counts)
    from P fl ok cnt have rk: "rk = Inr (ti, td, ?p)" and s1: "same_writes w1 v1" by simp_all
    show ?thesis
    proof (cases "?p = []")
      case True
      have spec: "flush_batches L S (day_batches ?files) 0 0 w = (Inr (ti, td), v1)"
        by (simp add: day_batches_def flush_batches_append fl ok cnt True)
      from assms(1,3) pk rk True have "r = Inr (ti, td)" "w' = w1" by (simp_all add: D)
      with spec s1 show ?thesis by simp
    next
      case False
      obtain ri w2 where ins: "insert_articles L S ?p w1 = (ri, w2)"
        by (cases "insert_articles L S ?p w1")
      from insert_articles_same_writes [OF ins s1] obtain v2 where
        insv: "insert_articles L S ?p v1 = (ri, v2)" and s2: "same_writes w2 v2"
        by blast
      show ?thesis
      proof (cases ri)
        case (Inl e)
        have spec: "flush_batches L S (day_batches ?files) 0 0 w = (Inl e, v2)"
          by (simp add: day_batches_def flush_batches_append fl ok cnt False insv Inl)
        from assms(1,3) pk rk False ins Inl have "r = Inl e" "w' = w2" by (simp_all add: D)
        with spec s2 show ?thesis by simp
      next
        case ok2: (Inr c2)
        obtain i d where c2: "c2 = (i, d)" by (cases c2)
        have spec: "flush_batches L S (day_batches ?files) 0 0 w = (Inr (ti + i, td + d), v2)"
          by (simp add: day_batches_def flush_batches_append fl ok cnt False insv ok2 c2)
        from assms(1,3) pk rk False ins ok2 c2 have "r = Inr (ti + i, td + d)" "w' = w2"
          by (simp_all add: D)
        with spec s2 show ?thesis by simp
      qed
    qed
  qed
qed

lemma flushed_midday_at_least: "b \<in> set (flushed_midday pending files) \<Longrightarrow> BATCH_SIZE \<le> length b"
  by (induction files arbitrary: pending) (auto split: if_splits)

lemma pending_after_less:
  "length pending < BATCH_SIZE \<Longrightarrow> length (pending_after pending files) < BATCH_SIZE"
proof (induction files arbitrary: pending)
  case Nil
  then show ?case by simp
next
  case (Cons f files)
  have "length ([] :: json list) < BATCH_SIZE" by (simp add: BATCH_SIZE_def)
  with Cons show ?case by (auto simp del: length_append)
qed

lemma concat_flushed:
  "concat (flushed_midday pending files) @ pending_after pending files = pending @ concat files"
  by (induction files arbitrary: pending) simp_all

lemma concat_day_batches: "concat (day_batches files) = concat files"
  using concat_flushed [of "[]" files] by (auto simp: day_batches_def)

lemma flushed_midday_at_most:
  "length pending < BATCH_SIZE \<Longrightarrow> \<forall>f \<in> set files. length f \<le> m \<Longrightarrow>
   b \<in> set (flushed_midday pending files) \<Longrightarrow> length b \<le> BATCH_SIZE - 1 + m"
proof (induction files arbitrary: pending)
  case Nil
  then show ?case by simp
next
  case (Cons f files)
  have z: "length ([] :: json list) < BATCH_SIZE" by (simp add: BATCH_SIZE_def)
  from Cons.prems(2) have fm: "length f \<le> m" and rest: "\<forall>f \<in> set files. length f \<le> m"
    by simp_all
  show ?case
  proof (cases "BATCH_SIZE \<le> length (pending @ f)")
    case True
    with Cons.prems(3) have "b = pending @ f \<or> b \<in> set (flushed_midday [] files)" by simp
    then show ?thesis
    proof
      assume "b = pending @ f"
      with Cons.prems(1) fm show ?thesis by simp
    next
      assume "b \<in> set (flushed_midday [] files)"
      from Cons.IH [OF z rest this] show ?thesis .
    qed
  next
    case False
    with Cons.prems(3) have b: "b \<in> set (flushed_midday (pending @ f) files)" by simp
    from False have lt: "length (pending @ f) < BATCH_SIZE" by simp
    from Cons.IH [OF lt rest b] show ?thesis .
  qed
qed

lemma day_batches_at_most:
  assumes "\<forall>f \<in> set files. length f \<le> m" "b \<in> set (day_batches files)"
  shows "length b \<le> BATCH_SIZE - 1 + m"
proof -
  have z: "length ([] :: json list) < BATCH_SIZE" by (simp add: BATCH_SIZE_def)
  from assms(2) have "b \<in> set (flushed_midday [] files) \<or> b = pending_after [] files"
    by (auto simp: day_batches_def split: if_splits)
  then show ?thesis
  proof
    assume "b \<in> set (flushed_midday [] files)"
    from flushed_midday_at_most [OF z assms(1) this] show ?thesis .
  next
    assume "b = pending_after [] files"
    with pending_after_less [OF z, of files] show ?thesis by simp
  qed
qed

lemma read_lines_length:
  "read_lines L key lines records w = (Inr articles, w1) \<Longrightarrow>
   length articles \<le> length records + length lines"
proof (induction lines arbitrary: records w)
  case Nil
  then show ?case by simp
next
  case (Cons line rest)
  let ?text = "str_strip L (decode_replace L line)"
  show ?case
  proof (cases "?text = []")
    case True
    with Cons.prems have "read_lines L key rest records w = (Inr articles, w1)" by simp
    from Cons.IH [OF this] show ?thesis by simp
  next
    case False
    show ?thesis
    proof (cases "json_loads L ?text")
      case (Parsed data)
      with False Cons.prems have "read_lines L key rest (records @ [data]) w = (Inr articles, w1)"
        by simp
      from Cons.IH [OF this] show ?thesis by simp
    next
      case (RaisesJSONDecodeError e)
      with False Cons.prems
      have "read_lines L key rest records (emit (PrintSkippingCorrupted key e) w) = (Inr articles, w1)"
        by simp
      from Cons.IH [OF this] show ?thesis by simp
    next
      case (RaisesOther e)
      with False Cons.prems show ?thesis by simp
    qed
  qed
qed

lemma read_lines_replicate:
  assumes "str_strip L (decode_replace L line) \<noteq> []"
    and "json_loads L (str_strip L (decode_replace L line)) = Parsed data"
  shows "read_lines L key (replicate n line) records w = (Inr (records @ replicate n data), w)"
  using assms
  by (induction n arbitrary: records) (simp_all add: replicate_app_Cons_same)

lemma prepare_loop_replicate:
  assumes "prepare_document L article = Inr (Some doc)"
  shows "prepare_loop L (replicate n article) documents = Inr (documents @ replicate n doc)"
  using assms
  by (induction n arbitrary: documents) (simp_all add: replicate_app_Cons_same)

lemma example_line_parses:
  "str_strip example_lib (decode_replace example_lib example_line) \<noteq> []"
  "json_loads example_lib (str_strip example_lib (decode_replace example_lib example_line))
     = Parsed (example_article ''Tesla recalls'' ''http://a/1'')"
  by code_simp+

lemma example_listing:
  "list_gz_files_for_day (example_services [(''20240105/a.gz'', lines)]) bucket ''20240105''
     = Inr [''20240105/a.gz'']"
proof -
  have "prefix ''20240105/'' ''20240105/a.gz''" and "suffix ''.gz'' ''20240105/a.gz''"
    by code_simp+
  then show ?thesis
    by (simp add: list_gz_files_for_day_def example_services_def)
qed

lemma example_reader_document:
  "prepare_document example_lib (example_article ''Tesla recalls'' ''http://a/1'')
     = Inr (Some (example_document ''f9b968e7dbf1f88ba0cf909900bebfd6'' ''Tesla recalls'' ''http://a/1''))"
proof -
  have a: "sublist ''tesla'' (lower ''Tesla recalls'')"
    by code_simp
  have m: "md5_hexdigest example_lib = md5_hex"
    by (simp add: example_lib_def)
  have s: "\<not> has_surrogate ''http://a/1''"
    by code_simp
  show ?thesis
    by (simp add: prepare_example_article [OF a _ s] m md5_hex_url1)
qed

lemma example_reader_client:
  "client_for_first example_lib (replicate (Suc n) (example_document i t u))
     = Inr (MongoClient MONGO_ATLAS_URI_1)"
  by (simp add: example_client)

lemma example_big_archive:
  assumes "BATCH_SIZE \<le> Suc n"
  shows "trace (snd (process_articles_for_day example_lib
            (example_services [(''20240105/a.gz'', replicate (Suc n) example_line)])
            ''bucket'' ''20240105'' \<lparr>mongo = example_state0, trace = []\<rparr>))
       = [PrintProcessingFile ''20240105/a.gz'', Connect MONGO_ATLAS_URI_1,
          InsertMany MONGO_ATLAS_URI_1
            (replicate (Suc n)
               (example_document ''f9b968e7dbf1f88ba0cf909900bebfd6'' ''Tesla recalls'' ''http://a/1'')),
          Sleep 1]"
proof -
  let ?S = "example_services [(''20240105/a.gz'', replicate (Suc n) example_line)] :: store_state services"
  let ?a = "example_article ''Tesla recalls'' ''http://a/1''"
  let ?d = "example_document ''f9b968e7dbf1f88ba0cf909900bebfd6'' ''Tesla recalls'' ''http://a/1''"
  let ?w1 = "\<lparr>mongo = example_state0, trace = [PrintProcessingFile ''20240105/a.gz'']\<rparr>"
  have rd: "read_gz_file_from_s3 example_lib ?S ''bucket'' ''20240105/a.gz'' ?w1
              = (Inr (replicate (Suc n) ?a), ?w1)"
    using read_lines_replicate [OF example_line_parses, of "''20240105/a.gz''" "Suc n" "[]" ?w1]
    by (simp add: read_gz_file_from_s3_def example_services_def)
  have pl: "prepare_loop example_lib (replicate (Suc n) ?a) [] = Inr (replicate (Suc n) ?d)"
    using prepare_loop_replicate [OF example_reader_document, of "Suc n" "[]"] by simp
  obtain out s where o: "store_insert_many example_state0 MONGO_ATLAS_URI_1 (replicate (Suc n) ?d) = (out, s)"
    by (cases "store_insert_many example_state0 MONGO_ATLAS_URI_1 (replicate (Suc n) ?d)")
  then have "(\<exists>ids. out = InsertManyResult ids) \<or> (\<exists>k errs. out = BulkWriteError k errs)"
    by (auto simp: store_insert_many_def example_state0_def split: prod.splits if_splits)
  then have "trace (snd (retry_loop example_lib ?S (replicate (Suc n) ?d) (Suc (Suc (Suc 0))) 0 0 ?w1))
               = trace ?w1 @ [Connect MONGO_ATLAS_URI_1, InsertMany MONGO_ATLAS_URI_1 (replicate (Suc n) ?d)]
           \<and> (\<exists>k i d. fst (retry_loop example_lib ?S (replicate (Suc n) ?d) (Suc (Suc (Suc 0))) 0 0 ?w1)
                  = Inr (Suc k, i, d))"
    using o example_reader_client [of n]
    by (auto simp: example_services_def simp del: replicate_Suc)
  then obtain k i d w2 where
    r: "retry_loop example_lib ?S (replicate (Suc n) ?d) (Suc (Suc (Suc 0))) 0 0 ?w1 = (Inr (Suc k, i, d), w2)"
    and t: "trace w2 = [PrintProcessingFile ''20240105/a.gz'', Connect MONGO_ATLAS_URI_1,
                        InsertMany MONGO_ATLAS_URI_1 (replicate (Suc n) ?d)]"
    by (cases "retry_loop example_lib ?S (replicate (Suc n) ?d) (Suc (Suc (Suc 0))) 0 0 ?w1") auto
  have ia: "insert_articles example_lib ?S (replicate (Suc n) ?a) ?w1 = (Inr (i, d), w2)"
    using pl r by (simp add: insert_articles_def numeral_3_eq_3 del: replicate_Suc)
  show ?thesis
    using assms rd ia t
    by (simp add: process_articles_for_day_def example_listing emit_def del: replicate_Suc)
qed


text \<open>
  Claim C6, as amended. The day-level writer appends the records of each archive, whole,
  to the pending batch and flushes the batch once it holds at least \<open>BATCH_SIZE = 500\<close>
  records; a remainder that is not empty is flushed at day end. On a day whose archives
  are readable, the result, the store and the bulk inserts of the day are those of
  flushing exactly these batches in order. Every batch flushed before day end holds at
  least 500 records, the remainder fewer than 500, and together they are the records of
  the day's archives in order. A batch is not bounded by 500: a batch, and every bulk
  insert of the day, holds at most \<open>499 + m\<close> records, where \<open>m\<close> bounds the number of
  records of each archive of the day.
\<close>

theorem write_holds_less_than_batch_size_plus_archive:
  assumes "list_gz_files_for_day S bucket date_str = Inr keys"
    and "process_articles_for_day L S bucket date_str w = (r, w')"
  shows "((\<forall>key \<in> set keys. \<forall>w0 articles w1.
             read_gz_file_from_s3 L S bucket key w0 = (Inr articles, w1) \<longrightarrow> length articles \<le> m)
          \<longrightarrow> adds_only (writes_at_most (BATCH_SIZE - 1 + m)) w w')
       \<and> ((\<forall>key \<in> set keys. archive_readable L S bucket key)
          \<longrightarrow> r = fst (flush_batches L S (day_batches (map (archive_records L S bucket) keys)) 0 0 w)
            \<and> same_writes w'
                (snd (flush_batches L S (day_batches (map (archive_records L S bucket) keys)) 0 0 w)))
       \<and> day_batches (map (archive_records L S bucket) keys)
           = flushed_midday [] (map (archive_records L S bucket) keys)
             @ (if pending_after [] (map (archive_records L S bucket) keys) \<noteq> []
                then [pending_after [] (map (archive_records L S bucket) keys)] else [])
       \<and> (\<forall>b \<in> set (flushed_midday [] (map (archive_records L S bucket) keys)). BATCH_SIZE \<le> length b)
       \<and> length (pending_after [] (map (archive_records L S bucket) keys)) < BATCH_SIZE
       \<and> concat (day_batches (map (archive_records L S bucket) keys))
           = concat (map (archive_records L S bucket) keys)
       \<and> ((\<forall>key \<in> set keys. length (archive_records L S bucket key) \<le> m)
          \<longrightarrow> (\<forall>b \<in> set (day_batches (map (archive_records L S bucket) keys)).
                 length b \<le> BATCH_SIZE - 1 + m))"
proof -
  let ?files = "map (archive_records L S bucket) keys"
  have z: "length ([] :: json list) < BATCH_SIZE"
    by (simp add: BATCH_SIZE_def)
  have 1: "adds_only (writes_at_most (BATCH_SIZE - 1 + m)) w w'"
    if "\<forall>key \<in> set keys. \<forall>w0 articles w1.
          read_gz_file_from_s3 L S bucket key w0 = (Inr articles, w1) \<longrightarrow> length articles \<le> m"
    using day_writes_bounded [OF assms(1) that assms(2)] .
  have 2: "r = fst (flush_batches L S (day_batches ?files) 0 0 w)
         \<and> same_writes w' (snd (flush_batches L S (day_batches ?files) 0 0 w))"
    if "\<forall>key \<in> set keys. archive_readable L S bucket key"
    using day_flushes [OF assms(1) that assms(2)] .
  have 3: "day_batches ?files
           = flushed_midday [] ?files @ (if pending_after [] ?files \<noteq> [] then [pending_after [] ?files] else [])"
    by (simp only: day_batches_def)
  have 4: "\<forall>b \<in> set (flushed_midday [] ?files). BATCH_SIZE \<le> length b"
    using flushed_midday_at_least by blast
  have 5: "length (pending_after [] ?files) < BATCH_SIZE"
    using pending_after_less [OF z] .
  have 6: "concat (day_batches ?files) = concat ?files"
    by (rule concat_day_batches)
  have 7: "\<forall>b \<in> set (day_batches ?files). length b \<le> BATCH_SIZE - 1 + m"
    if "\<forall>key \<in> set keys. length (archive_records L S bucket key) \<le> m"
  proof -
    from that have "\<forall>f \<in> set ?files. length f \<le> m" by simp
    then show ?thesis using day_batches_at_most by blast
  qed
  from 1 2 3 4 5 6 7 show ?thesis by blast
qed

theorem write_holds_less_than_batch_size_plus_archive_witness:
  "fst (process_articles_for_day example_lib
          (example_services [(''20240105/a.gz'', [example_line, example_line])])
          ''bucket'' ''20240105'' \<lparr>mongo = example_state0, trace = []\<rparr>) = Inr (1, 1)
   \<and> filter is_write
       (trace (snd (process_articles_for_day example_lib
          (example_services [(''20240105/a.gz'', [example_line, example_line])])
          ''bucket'' ''20240105'' \<lparr>mongo = example_state0, trace = []\<rparr>)))
     = [InsertMany MONGO_ATLAS_URI_1
          [example_document ''f9b968e7dbf1f88ba0cf909900bebfd6'' ''Tesla recalls'' ''http://a/1'',
           example_document ''f9b968e7dbf1f88ba0cf909900bebfd6'' ''Tesla recalls'' ''http://a/1'']]
   \<and> adds_only (writes_at_most (BATCH_SIZE - 1 + 2)) \<lparr>mongo = example_state0, trace = []\<rparr>
       (snd (process_articles_for_day example_lib
             (example_services [(''20240105/a.gz'', [example_line, example_line])])
             ''bucket'' ''20240105'' \<lparr>mongo = example_state0, trace = []\<rparr>))
   \<and> day_batches
        [[example_article ''Tesla recalls'' ''http://a/1'', example_article ''Tesla recalls'' ''http://a/1'']]
      = [[example_article ''Tesla recalls'' ''http://a/1'', example_article ''Tesla recalls'' ''http://a/1'']]"
proof -
  let ?S = "example_services [(''20240105/a.gz'', [example_line, example_line])] :: store_state services"
  let ?L = example_lib
  let ?w = "\<lparr>mongo = example_state0, trace = []\<rparr>"
  let ?a = "example_article ''Tesla recalls'' ''http://a/1''"
  let ?d = "example_document ''f9b968e7dbf1f88ba0cf909900bebfd6'' ''Tesla recalls'' ''http://a/1''"
  let ?keys = "[''20240105/a.gz'']"
  let ?run = "process_articles_for_day ?L ?S ''bucket'' ''20240105'' ?w"
  have p: "?run = (fst ?run, snd ?run)"
    by simp
  note T = write_holds_less_than_batch_size_plus_archive
             [where m = 2, OF example_listing [of "[example_line, example_line]" "''bucket''"] p]
  have g: "s3_get_lines ?S ''bucket'' ''20240105/a.gz'' = Inr [example_line, example_line]"
    by (simp add: example_services_def)
  have rec: "archive_records ?L ?S ''bucket'' ''20240105/a.gz'' = [?a, ?a]"
    using g by (simp add: archive_records_def parsed_records_def example_outcomes)
  have readable: "\<forall>key \<in> set ?keys. archive_readable ?L ?S ''bucket'' key"
    using g by (simp add: archive_readable_def example_outcomes)
  have h: "\<forall>key \<in> set ?keys. \<forall>w0 articles w1.
      read_gz_file_from_s3 ?L ?S ''bucket'' key w0 = (Inr articles, w1) \<longrightarrow> length articles \<le> 2"
  proof (intro ballI allI impI)
    fix key w0 articles w1
    assume k: "key \<in> set ?keys"
      and r: "read_gz_file_from_s3 ?L ?S ''bucket'' key w0 = (Inr articles, w1)"
    from k r g have "read_lines ?L key [example_line, example_line] [] w0 = (Inr articles, w1)"
      by (simp add: read_gz_file_from_s3_def)
    from read_lines_length [OF this] show "length articles \<le> 2" by simp
  qed
  have plan: "day_batches [[?a, ?a]] = [[?a, ?a]]"
    by (simp add: day_batches_def BATCH_SIZE_def)
  have pl: "prepare_loop ?L [?a, ?a] [] = Inr [?d, ?d]"
    by (simp add: example_reader_document)
  have ne: "[?d, ?d] \<noteq> []"
    by simp
  have ins: "insert_many ?S (mongo ?w) MONGO_ATLAS_URI_1 [?d, ?d]
      = (BulkWriteError 1 [\<lparr>index = 1, code = 11000\<rparr>],
         example_state0\<lparr>held := (held example_state0)
            (MONGO_ATLAS_URI_1 := [JStr ''f9b968e7dbf1f88ba0cf909900bebfd6''])\<rparr>)"
    by (simp add: example_services_def store_insert_many_def example_state0_def
          example_document_def dict_get_def)
  have fl: "flush_batches ?L ?S [[?a, ?a]] 0 0 ?w
      = (Inr (1, 1),
         \<lparr>mongo = example_state0\<lparr>held := (held example_state0)
            (MONGO_ATLAS_URI_1 := [JStr ''f9b968e7dbf1f88ba0cf909900bebfd6''])\<rparr>,
          trace = [Connect MONGO_ATLAS_URI_1, InsertMany MONGO_ATLAS_URI_1 [?d, ?d]]\<rparr>)"
    using ins by (simp add: insert_articles_flush [OF pl ne] example_client)
  note B = T [THEN conjunct2, THEN conjunct1, THEN mp, OF readable]
  have 1: "fst ?run = Inr (1, 1)"
    and 2: "filter is_write (trace (snd ?run)) = [InsertMany MONGO_ATLAS_URI_1 [?d, ?d]]"
    using B unfolding list.map rec plan fl
    by (simp_all add: same_writes_def is_write_def)
  from T [THEN conjunct1, THEN mp, OF h]
  have 3: "adds_only (writes_at_most (BATCH_SIZE - 1 + 2)) ?w (snd ?run)" .
  from 1 2 3 plan show ?thesis by blast
qed

text \<open>
  The claim as stated, at most 500 documents in every write, fails on a day with one
  archive of 501 articles: they are written in one bulk insert of 501 documents.
\<close>

theorem write_of_501_documents_counterexample:
  "trace (snd (process_articles_for_day example_lib
            (example_services [(''20240105/a.gz'', replicate 501 example_line)])
            ''bucket'' ''20240105'' \<lparr>mongo = example_state0, trace = []\<rparr>))
     = [PrintProcessingFile ''20240105/a.gz'', Connect MONGO_ATLAS_URI_1,
        InsertMany MONGO_ATLAS_URI_1
          (replicate 501
             (example_document ''f9b968e7dbf1f88ba0cf909900bebfd6'' ''Tesla recalls'' ''http://a/1'')),
        Sleep 1]
   \<and> length (replicate 501
        (example_document ''f9b968e7dbf1f88ba0cf909900bebfd6'' ''Tesla recalls'' ''http://a/1'')) = 501
   \<and> \<not> writes_at_most 500
        (InsertMany MONGO_ATLAS_URI_1
          (replicate 501
             (example_document ''f9b968e7dbf1f88ba0cf909900bebfd6'' ''Tesla recalls'' ''http://a/1'')))"
proof -
  have n: "(501::nat) = Suc 500" by simp
  have b: "BATCH_SIZE \<le> Suc 500" by (simp add: BATCH_SIZE_def)
  show ?thesis
    unfolding n using example_big_archive [OF b]
    by (simp add: writes_at_most_def del: replicate_Suc)
qed

end
